theory Spec2Isabelle
  imports Complex_Main
begin

section \<open>Kelemvor's Scales: the combat-resolution and simulation engine\<close>

text \<open>
  A shallow embedding of \<^verbatim>\<open>boss_balance_desktop_encounter_v3_resized.py\<close>.

  Conventions of the model.
  \<^item> A Python \<^verbatim>\<open>str\<close> is a \<^typ>\<open>string\<close> of ASCII characters. The en-dash and
    em-dash that \<^verbatim>\<open>parse_recharge\<close> replaces and the Unicode digits that \<^verbatim>\<open>\d\<close> and
    \<^verbatim>\<open>int()\<close> accept do not occur in such a text.
  \<^item> A Python \<^verbatim>\<open>float\<close> is a \<^typ>\<open>rat\<close>: arithmetic is exact, and neither rounding
    nor the range of a double is modelled. Every quantity the single-target simulator
    computes from dice, modifiers and halved damage is a multiple of one half, which a
    double holds exactly. \<^verbatim>\<open>math.inf\<close> and NaN are written out where the code can produce them
    (\<open>None\<close> in an \<open>option\<close>).
  \<^item> A Python \<^verbatim>\<open>int\<close> is an \<^typ>\<open>int\<close> (or a \<^typ>\<open>nat\<close> for a count). The bounds of
    numpy's integer arrays and of \<^verbatim>\<open>np.random.randint\<close> (64 bits) and the memory an array
    takes are not modelled.
  \<^item> The process-wide random generators (\<^verbatim>\<open>random\<close>, \<^verbatim>\<open>np.random\<close>) are one explicit
    infinite sequence of natural numbers with a read position, passed through every
    call; each draw reads the next elements and maps them onto the range of the drawn
    distribution, so that every outcome the generators can produce is the image of some
    sequence.
\<close>

subsection \<open>Python strings\<close>

definition is_digit :: "char \<Rightarrow> bool" where
  "is_digit c = (48 \<le> (of_char c :: nat) \<and> (of_char c :: nat) \<le> 57)"

definition digit_val :: "char \<Rightarrow> nat" where
  "digit_val c = of_char c - 48"

text \<open>\<^verbatim>\<open>str.isspace\<close> on ASCII: tab, LF, VT, FF, CR, the separators 0x1C..0x1F, space.\<close>

definition py_isspace :: "char \<Rightarrow> bool" where
  "py_isspace c = ((9 \<le> (of_char c :: nat) \<and> (of_char c :: nat) \<le> 13)
     \<or> (28 \<le> (of_char c :: nat) \<and> (of_char c :: nat) \<le> 32))"

definition py_strip :: "string \<Rightarrow> string" where
  "py_strip s = rev (dropWhile py_isspace (rev (dropWhile py_isspace s)))"

definition py_lower_char :: "char \<Rightarrow> char" where
  "py_lower_char c = (if 65 \<le> (of_char c :: nat) \<and> (of_char c :: nat) \<le> 90
     then char_of ((of_char c :: nat) + 32) else c)"

definition py_lower :: "string \<Rightarrow> string" where
  "py_lower s = map py_lower_char s"

definition py_upper_char :: "char \<Rightarrow> char" where
  "py_upper_char c = (if 97 \<le> (of_char c :: nat) \<and> (of_char c :: nat) \<le> 122
     then char_of ((of_char c :: nat) - 32) else c)"

definition py_upper :: "string \<Rightarrow> string" where
  "py_upper s = map py_upper_char s"

text \<open>\<^verbatim>\<open>s.replace(" ", "")\<close>\<close>

definition remove_spaces :: "string \<Rightarrow> string" where
  "remove_spaces s = filter (\<lambda>c. c \<noteq> CHR '' '') s"

text \<open>
  \<^verbatim>\<open>int(x)\<close> on a string: surrounding whitespace is skipped, one sign is allowed, then
  decimal digits, where single underscores may stand between two digits. \<open>None\<close> is
  the \<^verbatim>\<open>ValueError\<close>. The whitespace that \<^verbatim>\<open>int\<close> skips is tab, LF, VT, FF, CR and
  space only: unlike \<^verbatim>\<open>str.strip\<close> it does not skip the separators 0x1C..0x1F, so
  \<^verbatim>\<open>int\<close> of a text with such a character raises. (The interpreter's configurable limit
  on the number of digits is not modelled.)
\<close>

definition int_isspace :: "char \<Rightarrow> bool" where
  "int_isspace c = ((9 \<le> (of_char c :: nat) \<and> (of_char c :: nat) \<le> 13)
     \<or> (of_char c :: nat) = 32)"

definition int_strip :: "string \<Rightarrow> string" where
  "int_strip s = rev (dropWhile int_isspace (rev (dropWhile int_isspace s)))"

fun int_digits :: "nat \<Rightarrow> string \<Rightarrow> nat option" where
  "int_digits acc [] = Some acc"
| "int_digits acc (c # cs) =
     (if is_digit c then int_digits (10 * acc + digit_val c) cs
      else if c = CHR ''_'' then
        (case cs of
           [] \<Rightarrow> None
         | d # ds \<Rightarrow> if is_digit d then int_digits (10 * acc + digit_val d) ds else None)
      else None)"

definition int_unsigned :: "string \<Rightarrow> nat option" where
  "int_unsigned body =
     (case body of [] \<Rightarrow> None | c # _ \<Rightarrow> if is_digit c then int_digits 0 body else None)"

definition py_int :: "string \<Rightarrow> int option" where
  "py_int x =
     (case int_strip x of
        [] \<Rightarrow> None
      | c # r \<Rightarrow>
          if c = CHR ''-'' then map_option (\<lambda>n. - int n) (int_unsigned r)
          else if c = CHR ''+'' then map_option int (int_unsigned r)
          else map_option int (int_unsigned (c # r)))"

text \<open>
  \<^verbatim>\<open>safe_int(x, default)\<close> on a string. The code falls back to \<^verbatim>\<open>int(float(x))\<close> when
  \<^verbatim>\<open>int(x)\<close> raises; the parser below applies \<open>safe_int\<close> only to tokens of the shape
  \<^verbatim>\<open>[+-]?\d+\<close>, which \<^verbatim>\<open>int\<close> accepts (lemmas \<open>findall_int_parses\<close> and
  \<open>findall_dice_parses\<close>), so the fallback is modelled by the default.
\<close>

definition safe_int :: "string \<Rightarrow> int \<Rightarrow> int" where
  "safe_int x dflt = (case py_int x of Some v \<Rightarrow> v | None \<Rightarrow> dflt)"

subsection \<open>The two regular expressions of the damage parser\<close>

definition is_sign :: "char \<Rightarrow> bool" where
  "is_sign c = (c = CHR ''+'' \<or> c = CHR ''-'')"

text \<open>
  \<^verbatim>\<open>([+-]?\d*)d(\d+)\<close> anchored at the head of \<open>s\<close>: the two groups and the rest of
  the text behind the match. Signs, digits and the letter d are disjoint classes, so
  the greedy choices are the only ones that can succeed and backtracking finds nothing
  else.
\<close>

definition match_dice :: "string \<Rightarrow> ((string \<times> string) \<times> string) option" where
  "match_dice s =
     (let (sg, r1) = (case s of [] \<Rightarrow> ([], []) | c # r \<Rightarrow> if is_sign c then ([c], r) else ([], s));
          ds = takeWhile is_digit r1;
          r2 = dropWhile is_digit r1
      in case r2 of
           [] \<Rightarrow> None
         | c # r3 \<Rightarrow>
             if c = CHR ''d'' \<and> takeWhile is_digit r3 \<noteq> []
             then Some ((sg @ ds, takeWhile is_digit r3), dropWhile is_digit r3)
             else None)"

text \<open>\<^verbatim>\<open>[+-]?\d+\<close> anchored at the head of \<open>s\<close>: the token and the rest.\<close>

definition match_int :: "string \<Rightarrow> (string \<times> string) option" where
  "match_int s =
     (let (sg, r1) = (case s of [] \<Rightarrow> ([], []) | c # r \<Rightarrow> if is_sign c then ([c], r) else ([], s))
      in if takeWhile is_digit r1 \<noteq> []
         then Some (sg @ takeWhile is_digit r1, dropWhile is_digit r1)
         else None)"

lemma match_dice_shorter:
  "match_dice s = Some (g, rest) \<Longrightarrow> length rest < length s"
proof -
  assume m: "match_dice s = Some (g, rest)"
  have dw: "\<And>xs. length (dropWhile is_digit xs) \<le> length xs"
    by (rule length_dropWhile_le)
  show ?thesis
  proof (cases s)
    case Nil
    with m show ?thesis by (simp add: match_dice_def)
  next
    case (Cons c r)
    show ?thesis
    proof (cases "is_sign c")
      case True
      with m Cons obtain r3 where
        r2: "dropWhile is_digit r = CHR ''d'' # r3" and rest: "rest = dropWhile is_digit r3"
        by (auto simp: match_dice_def Let_def split: list.splits if_splits)
      have "length rest \<le> length r3" using rest dw by simp
      moreover have "length r3 < length (dropWhile is_digit r)" using r2 by simp
      moreover have "length (dropWhile is_digit r) \<le> length r" by (rule dw)
      ultimately show ?thesis using Cons by simp
    next
      case False
      with m Cons obtain r3 where
        r2: "dropWhile is_digit s = CHR ''d'' # r3" and rest: "rest = dropWhile is_digit r3"
        by (auto simp: match_dice_def Let_def split: list.splits if_splits)
      have "length rest \<le> length r3" using rest dw by simp
      moreover have "length r3 < length (dropWhile is_digit s)" using r2 by simp
      moreover have "length (dropWhile is_digit s) \<le> length s" by (rule dw)
      ultimately show ?thesis by simp
    qed
  qed
qed

lemma match_int_shorter:
  "match_int s = Some (tok, rest) \<Longrightarrow> length rest < length s"
proof -
  assume m: "match_int s = Some (tok, rest)"
  have dw: "\<And>xs. takeWhile is_digit xs \<noteq> [] \<Longrightarrow> length (dropWhile is_digit xs) < length xs"
  proof -
    fix xs :: string
    assume "takeWhile is_digit xs \<noteq> []"
    then have "0 < length (takeWhile is_digit xs)" by simp
    moreover have "length (takeWhile is_digit xs) + length (dropWhile is_digit xs) = length xs"
      by (metis length_append takeWhile_dropWhile_id)
    ultimately show "length (dropWhile is_digit xs) < length xs" by linarith
  qed
  show ?thesis
  proof (cases s)
    case Nil
    with m show ?thesis by (simp add: match_int_def)
  next
    case (Cons c r)
    show ?thesis
    proof (cases "is_sign c")
      case True
      with m Cons have "takeWhile is_digit r \<noteq> []" and "rest = dropWhile is_digit r"
        by (auto simp: match_int_def Let_def split: if_splits)
      then show ?thesis using dw [of r] Cons by simp
    next
      case False
      with m Cons have "takeWhile is_digit s \<noteq> []" and "rest = dropWhile is_digit s"
        by (auto simp: match_int_def Let_def split: if_splits)
      then show ?thesis using dw [of s] by simp
    qed
  qed
qed

text \<open>
  \<^verbatim>\<open>re.findall\<close> and \<^verbatim>\<open>re.sub\<close> scan from the left: where the pattern matches, the match
  is taken and the scan goes on behind it; where it does not, the scan moves one character
  on. Neither pattern matches the empty text.
\<close>

function findall_dice :: "string \<Rightarrow> (string \<times> string) list" where
  "findall_dice [] = []"
| "findall_dice (c # cs) =
     (case match_dice (c # cs) of
        Some (g, rest) \<Rightarrow> g # findall_dice rest
      | None \<Rightarrow> findall_dice cs)"
  by pat_completeness auto
termination
  by (relation "measure length") (auto dest: match_dice_shorter)

function sub_dice :: "string \<Rightarrow> string" where
  "sub_dice [] = []"
| "sub_dice (c # cs) =
     (case match_dice (c # cs) of
        Some (g, rest) \<Rightarrow> sub_dice rest
      | None \<Rightarrow> c # sub_dice cs)"
  by pat_completeness auto
termination
  by (relation "measure length") (auto dest: match_dice_shorter)

function findall_int :: "string \<Rightarrow> string list" where
  "findall_int [] = []"
| "findall_int (c # cs) =
     (case match_int (c # cs) of
        Some (tok, rest) \<Rightarrow> tok # findall_int rest
      | None \<Rightarrow> findall_int cs)"
  by pat_completeness auto
termination
  by (relation "measure length") (auto dest: match_int_shorter)

subsection \<open>Damage expressions\<close>

text \<open>
  \<^verbatim>\<open>parse_damage_expression\<close>: the overall sign, the dice terms \<open>(count, sides)\<close> in
  the order of the text, and the flat modifier. Python's \<^verbatim>\<open>sum\<close> adds from the left,
  starting at \<open>0\<close>.
\<close>

definition py_sum :: "'a::monoid_add list \<Rightarrow> 'a" where
  "py_sum xs = foldl (\<lambda>acc x. acc + x) 0 xs"

definition dice_count :: "string \<Rightarrow> int" where
  "dice_count c_str =
     (if c_str = [] \<or> c_str = ''+'' then 1
      else if c_str = ''-'' then - 1
      else safe_int c_str 1)"

definition parse_damage_expression :: "string \<Rightarrow> int \<times> (int \<times> int) list \<times> int" where
  "parse_damage_expression expr =
     (let s = remove_spaces (py_lower (py_strip expr))
      in if s = [] then (1, [], 0)
         else
           let sign = (if take 1 s = ''-'' then - 1 else 1);
               s1 = (if take 1 s = ''-'' \<or> take 1 s = ''+'' then drop 1 s else s);
               dice_terms = findall_dice s1;
               dice = map (\<lambda>(c_str, sides_str). (dice_count c_str, safe_int sides_str 0)) dice_terms;
               s_wo = sub_dice s1;
               tokens = findall_int s_wo;
               modifier = py_sum (map (\<lambda>t. safe_int t 0) tokens)
           in (sign, dice, modifier))"

text \<open>\<^verbatim>\<open>average_damage\<close>: every parsed dice term enters the sum, whatever its sides.\<close>

definition average_damage :: "string \<Rightarrow> rat" where
  "average_damage expr =
     (case parse_damage_expression expr of
        (sign, dice, modifier) \<Rightarrow>
          let avg = py_sum (map (\<lambda>(c, s). of_int (c * (s + 1)) / 2) dice) + of_int modifier
          in max 0 (of_int sign * avg))"

text \<open>\<^verbatim>\<open>average_crunchy_crit_damage\<close>: one set of dice at its maximum, one set rolled.\<close>

definition average_crunchy_crit_damage :: "string \<Rightarrow> rat" where
  "average_crunchy_crit_damage expr =
     (case parse_damage_expression expr of
        (sign, dice, modifier) \<Rightarrow>
          let avg_dice = py_sum (map (\<lambda>(c, s). of_int c * (of_int s + of_int (s + 1) / 2)) dice)
          in max 0 (of_int sign * (avg_dice + of_int modifier)))"

subsection \<open>Hit, crit and save probabilities\<close>

text \<open>
  \<^verbatim>\<open>hit_probs\<close>. The nested \<open>classify\<close> takes the AC and the attack bonus of the
  enclosing call; it returns \<open>(is_hit, is_crit)\<close>. The mode is compared as a text: any
  mode other than \<^verbatim>\<open>normal\<close> enumerates the pairs, and any mode other than \<^verbatim>\<open>adv\<close>
  takes the lower face there.
\<close>

definition classify :: "int \<Rightarrow> int \<Rightarrow> int \<Rightarrow> bool \<times> bool" where
  "classify ac attack_bonus r =
     (if r = 1 then (False, False)
      else if r = 20 then (True, True)
      else (r + attack_bonus \<ge> ac, False))"

definition hit_probs :: "int \<Rightarrow> int \<Rightarrow> string \<Rightarrow> rat \<times> rat \<times> rat" where
  "hit_probs ac attack_bonus mode =
     (if mode = ''normal'' then
        let hits = map (classify ac attack_bonus) [1..20];
            p_crit = of_int (py_sum (map (\<lambda>_. 1) (filter (\<lambda>(is_hit, is_crit). is_crit) hits))) / 20;
            p_noncrit = of_int (py_sum (map (\<lambda>_. 1)
                          (filter (\<lambda>(is_hit, is_crit). is_hit \<and> \<not> is_crit) hits))) / 20
        in (p_noncrit, p_crit, p_noncrit + p_crit)
      else
        let hits = concat (map (\<lambda>r1. map (\<lambda>r2.
                       classify ac attack_bonus (if mode = ''adv'' then max r1 r2 else min r1 r2))
                     [1..20]) [1..20]);
            p_crit = of_int (py_sum (map (\<lambda>_. 1) (filter (\<lambda>(is_hit, is_crit). is_crit) hits))) / 400;
            p_noncrit = of_int (py_sum (map (\<lambda>_. 1)
                          (filter (\<lambda>(is_hit, is_crit). is_hit \<and> \<not> is_crit) hits))) / 400
        in (p_noncrit, p_crit, p_noncrit + p_crit))"

definition p_save_fail :: "int \<Rightarrow> int \<Rightarrow> rat" where
  "p_save_fail dc save_bonus =
     (let target = dc - save_bonus
      in if target \<le> 1 then 1 / 20
         else if target > 20 then 19 / 20
         else of_int (target - 1) / 20)"

subsection \<open>Recharge probability\<close>

text \<open>
  \<^verbatim>\<open>parse_recharge\<close>. \<open>split_dash\<close> is \<^verbatim>\<open>t.split("-", 1)\<close> for a text that holds a dash:
  the part before the first dash and everything behind it. A \<^verbatim>\<open>ValueError\<close> of either
  \<^verbatim>\<open>int\<close> is caught and gives \<open>0\<close>.
\<close>

definition split_dash :: "string \<Rightarrow> string \<times> string" where
  "split_dash t =
     (takeWhile (\<lambda>c. c \<noteq> CHR ''-'') t, drop 1 (dropWhile (\<lambda>c. c \<noteq> CHR ''-'') t))"

definition parse_recharge :: "string \<Rightarrow> rat" where
  "parse_recharge text =
     (let t = py_strip text
      in if t = [] then 0
         else if CHR ''-'' \<in> set t then
           (case split_dash t of
              (lo_s, hi_s) \<Rightarrow>
                (case py_int lo_s of
                   None \<Rightarrow> 0
                 | Some lo0 \<Rightarrow>
                     (case py_int hi_s of
                        None \<Rightarrow> 0
                      | Some hi0 \<Rightarrow>
                          let lo1 = min lo0 hi0; hi1 = max lo0 hi0;
                              lo = max 1 (min 6 lo1);
                              hi = max 1 (min 6 hi1)
                          in of_int (hi - lo + 1) / 6)))
         else
           (case py_int t of
              None \<Rightarrow> 0
            | Some k0 \<Rightarrow> let k = max 2 (min 6 k0) in of_int (7 - k) / 6))"

subsection \<open>The enumeration the specification describes\<close>

text \<open>
  Written from the specification, to be compared with \<open>hit_probs\<close>: a natural 1
  always misses, a natural 20 always hits and is a crit, any other face hits iff
  face + attack bonus \<open>\<ge>\<close> AC; the three probabilities are the shares of the equally
  likely outcomes whose effective face is a non-crit hit, a crit, a hit.
\<close>

definition spec_hit :: "int \<Rightarrow> int \<Rightarrow> int \<Rightarrow> bool" where
  "spec_hit ac attack_bonus face = (face \<noteq> 1 \<and> (face = 20 \<or> face + attack_bonus \<ge> ac))"

definition spec_crit :: "int \<Rightarrow> bool" where
  "spec_crit face = (face = 20)"

definition spec_enumerate :: "int \<Rightarrow> int \<Rightarrow> 'a set \<Rightarrow> ('a \<Rightarrow> int) \<Rightarrow> rat \<times> rat \<times> rat" where
  "spec_enumerate ac attack_bonus outcomes face =
     (of_nat (card {w \<in> outcomes. spec_hit ac attack_bonus (face w) \<and> \<not> spec_crit (face w)})
        / of_nat (card outcomes),
      of_nat (card {w \<in> outcomes. spec_crit (face w)}) / of_nat (card outcomes),
      of_nat (card {w \<in> outcomes. spec_hit ac attack_bonus (face w)}) / of_nat (card outcomes))"


subsection \<open>Random draws\<close>

text \<open>
  The generator: a sequence of natural numbers and the position of the next element.
  \<open>randint a b\<close> is \<^verbatim>\<open>random.randint(a, b)\<close> and \<^verbatim>\<open>np.random.randint(a, b + 1)\<close>, an
  integer of \<open>[a, b]\<close>. \<open>draw_list n f\<close> draws \<open>n\<close> times with \<open>f\<close>, in order.
\<close>

datatype rng = Rng "nat \<Rightarrow> nat" nat

fun draw :: "rng \<Rightarrow> nat \<times> rng" where
  "draw (Rng src pos) = (src pos, Rng src (Suc pos))"

definition randint :: "int \<Rightarrow> int \<Rightarrow> rng \<Rightarrow> int \<times> rng" where
  "randint a b g = (case draw g of (x, g1) \<Rightarrow> (a + int (x mod nat (b - a + 1)), g1))"

primrec draw_list :: "nat \<Rightarrow> (rng \<Rightarrow> 'a \<times> rng) \<Rightarrow> rng \<Rightarrow> 'a list \<times> rng" where
  "draw_list 0 f g = ([], g)"
| "draw_list (Suc n) f g =
     (case f g of (x, g1) \<Rightarrow> (case draw_list n f g1 of (xs, g2) \<Rightarrow> (x # xs, g2)))"

text \<open>
  A Bernoulli draw with success probability \<open>1 / k\<close> (\<open>k \<ge> 1\<close>) and the binomial
  count of \<open>n\<close> such draws: \<^verbatim>\<open>np.random.binomial(n, 1.0 / k)\<close>.
\<close>

definition bernoulli_inv :: "nat \<Rightarrow> rng \<Rightarrow> bool \<times> rng" where
  "bernoulli_inv k g = (case draw g of (x, g1) \<Rightarrow> (x mod k = 0, g1))"

definition binomial_inv :: "nat \<Rightarrow> nat \<Rightarrow> rng \<Rightarrow> nat \<times> rng" where
  "binomial_inv n k g =
     (case draw_list n (bernoulli_inv k) g of (bs, g1) \<Rightarrow> (length (filter (\<lambda>b. b) bs), g1))"

text \<open>
  A non-negative float (a draw of \<^verbatim>\<open>np.random.gamma\<close>, whose support is the positive
  half-line whatever its shape and scale) and a float of \<open>[0, 1)\<close> (\<^verbatim>\<open>random.random()\<close>),
  each from two elements of the sequence.
\<close>

definition nonneg_float :: "rng \<Rightarrow> rat \<times> rng" where
  "nonneg_float g =
     (case draw g of (n, g1) \<Rightarrow> (case draw g1 of (d, g2) \<Rightarrow> (of_nat n / of_nat (Suc d), g2)))"

definition unit_float :: "rng \<Rightarrow> rat \<times> rng" where
  "unit_float g =
     (case draw g of (n, g1) \<Rightarrow>
        (case draw g1 of (d, g2) \<Rightarrow> (of_nat (n mod Suc d) / of_nat (Suc d), g2)))"

text \<open>
  \<^verbatim>\<open>np.random.choice(xs)\<close>: one element of a non-empty array.
  \<^verbatim>\<open>np.random.choice(xs, size=k, replace=False)\<close>: \<open>k\<close> distinct positions of \<open>xs\<close>
  in a random order (\<open>k \<le> length xs\<close>).
\<close>

definition choice_one :: "'a list \<Rightarrow> rng \<Rightarrow> 'a \<times> rng" where
  "choice_one xs g = (case draw g of (x, g1) \<Rightarrow> (xs ! (x mod length xs), g1))"

primrec choice_distinct :: "nat \<Rightarrow> 'a list \<Rightarrow> rng \<Rightarrow> 'a list \<times> rng" where
  "choice_distinct 0 xs g = ([], g)"
| "choice_distinct (Suc k) xs g =
     (if xs = [] then ([], g)
      else case draw g of (x, g1) \<Rightarrow>
        (let i = x mod length xs
         in case choice_distinct k (take i xs @ drop (Suc i) xs) g1 of
              (ys, g2) \<Rightarrow> (xs ! i # ys, g2)))"

subsection \<open>Sampling a damage expression\<close>

text \<open>
  \<^verbatim>\<open>roll_damage(expr, size)\<close>: \<open>sz\<close> independent samples. A term with count zero or
  with sides \<open>\<le> 0\<close> is skipped; for the others \<open>rolls\<close> is the matrix of
  \<open>|count|\<close> rows of \<open>sz\<close> dice, summed by column.
\<close>

primrec roll_damage_terms ::
  "(int \<times> int) list \<Rightarrow> nat \<Rightarrow> rat list \<Rightarrow> rng \<Rightarrow> rat list \<times> rng" where
  "roll_damage_terms [] sz total_roll g = (total_roll, g)"
| "roll_damage_terms (dterm # rest) sz total_roll g =
     (case dterm of (count, sides) \<Rightarrow>
        if count = 0 \<or> sides \<le> 0 then roll_damage_terms rest sz total_roll g
        else
          let num_rolls = nat \<bar>count\<bar>
          in case draw_list num_rolls (draw_list sz (randint 1 sides)) g of
               (rolls, g1) \<Rightarrow>
                 roll_damage_terms rest sz
                   (map (\<lambda>j. total_roll ! j
                        + of_int (sgn count * py_sum (map (\<lambda>row. row ! j) rolls))) [0..<sz])
                   g1)"

definition roll_damage :: "string \<Rightarrow> nat \<Rightarrow> rng \<Rightarrow> rat list \<times> rng" where
  "roll_damage expr sz g =
     (case parse_damage_expression expr of
        (sign, dice, modifier) \<Rightarrow>
          (case roll_damage_terms dice sz (replicate sz 0) g of
             (total_roll, g1) \<Rightarrow>
               (map (\<lambda>x. max 0 ((x + of_int modifier) * of_int sign)) total_roll, g1)))"

text \<open>
  \<^verbatim>\<open>roll_damage_crunchy_crit(expr)\<close>: one sample of a critical hit;
  \<^verbatim>\<open>math.copysign(max_part + roll_part, count)\<close> gives the positive sum the sign of
  the count.
\<close>

primrec roll_crit_terms :: "(int \<times> int) list \<Rightarrow> rat \<Rightarrow> rng \<Rightarrow> rat \<times> rng" where
  "roll_crit_terms [] tot g = (tot, g)"
| "roll_crit_terms (dterm # rest) tot g =
     (case dterm of (count, sides) \<Rightarrow>
        if sides \<le> 0 \<or> count = 0 then roll_crit_terms rest tot g
        else
          let n = nat \<bar>count\<bar>;
              max_part = int n * sides
          in case draw_list n (randint 1 sides) g of
               (rolls, g1) \<Rightarrow>
                 let roll_part = py_sum rolls
                 in roll_crit_terms rest
                      (tot + of_int (if count < 0 then - \<bar>max_part + roll_part\<bar>
                                       else \<bar>max_part + roll_part\<bar>))
                      g1)"

definition roll_damage_crunchy_crit :: "string \<Rightarrow> rng \<Rightarrow> rat \<times> rng" where
  "roll_damage_crunchy_crit expr g =
     (case parse_damage_expression expr of
        (sign, dice, modifier) \<Rightarrow>
          (case roll_crit_terms dice 0 g of
             (tot, g1) \<Rightarrow> (max 0 ((tot + of_int modifier) * of_int sign), g1)))"

subsection \<open>Configuration records\<close>

text \<open>
  \<open>attack\<close> is the dataclass \<^verbatim>\<open>Attack\<close>. \<open>options\<close> holds the keys of the options
  dictionary that the engine reads; the trial and round counts are natural numbers (the
  editor takes them from spin boxes with positive ranges). \<open>pc_row\<close> is a row of the
  party table after coercion: name, AC, HP and the save bonuses by key (a missing key
  reads as \<open>0\<close>).
\<close>

record attack =
  name :: string
  kind :: string
  attack_bonus :: int
  dc :: int
  save_stat :: string
  damage_expr :: string
  uses_per_round :: int
  is_melee :: bool
  enabled :: bool

record options =
  mode_select :: string
  spread_targets :: int
  thp_expr :: string
  lair_enabled :: bool
  lair_avg :: rat
  lair_targets :: int
  lair_every_n :: int
  rech_enabled :: bool
  recharge_text :: string
  rech_avg :: rat
  rech_targets :: int
  rider_mode :: string
  rider_duration :: int
  rider_melee_only :: bool
  boss_hp :: int
  resist_factor :: rat
  boss_regen :: rat
  mc_rounds :: nat
  mc_trials :: nat
  enc_trials :: nat
  enc_max_rounds :: nat
  enc_use_nova :: bool
  dpr_cv :: rat
  initiative_mode :: string
  tune_target_median :: rat
  tune_tpk_cap :: rat

record pc_row =
  pc_name :: string
  pc_AC :: int
  pc_HP :: int
  pc_saves :: "string \<Rightarrow> int option"

definition SAVE_KEYS :: "string list" where
  "SAVE_KEYS = [''STR'', ''DEX'', ''CON'', ''INT'', ''WIS'', ''CHA'']"

definition pc_get :: "pc_row \<Rightarrow> string \<Rightarrow> int" where
  "pc_get pc k = (case pc_saves pc k of Some v \<Rightarrow> v | None \<Rightarrow> 0)"

subsection \<open>The single-target simulator\<close>

text \<open>
  \<^verbatim>\<open>_run_mc_sim\<close>, save branch, for one trial with \<open>h\<close> landing uses: \<open>h\<close> d20 rolls,
  \<open>h\<close> damage samples, half damage where the roll plus the bonus reaches the DC.
\<close>

definition mc_save_success :: "int \<Rightarrow> int \<Rightarrow> int \<Rightarrow> bool" where
  "mc_save_success roll bonus dc_val = (roll + bonus \<ge> dc_val)"

definition mc_save_uses :: "attack \<Rightarrow> int \<Rightarrow> nat \<Rightarrow> rng \<Rightarrow> rat \<times> rng" where
  "mc_save_uses atk bonus h g =
     (case draw_list h (randint 1 20) g of
        (rolls, g1) \<Rightarrow>
          (case roll_damage (damage_expr atk) h g1 of
             (dmg_rolls, g2) \<Rightarrow>
               (py_sum (map (\<lambda>k. if mc_save_success (rolls ! k) bonus (dc atk)
                                   then dmg_rolls ! k / 2 else dmg_rolls ! k) [0..<h]),
                g2)))"

text \<open>
  Attack branch, for one trial: the loop over the landing uses with the trial's entries
  of \<open>round_damage\<close> and \<open>triggered_rider\<close> as its state.
\<close>

primrec mc_attack_uses ::
  "attack \<Rightarrow> options \<Rightarrow> int \<Rightarrow> string \<Rightarrow> nat \<Rightarrow> rat \<times> bool \<Rightarrow> rng \<Rightarrow> (rat \<times> bool) \<times> rng" where
  "mc_attack_uses atk opts cur_ac cur_mode 0 st g = (st, g)"
| "mc_attack_uses atk opts cur_ac cur_mode (Suc h) st g =
     (case randint 1 20 g of
        (r1, g1) \<Rightarrow>
          (case randint 1 20 g1 of
             (r2, g2) \<Rightarrow>
               let roll0 = r1;
                   roll1 = (if cur_mode = ''adv'' then max r1 r2 else roll0);
                   roll = (if cur_mode = ''dis'' then min r1 r2 else roll1);
                   is_crit = (roll = 20);
                   is_hit = (is_crit \<or> (roll \<noteq> 1 \<and> roll + attack_bonus atk \<ge> cur_ac))
               in if is_hit then
                    (case (if is_crit then roll_damage_crunchy_crit (damage_expr atk) g2
                           else (case roll_damage (damage_expr atk) 1 g2 of
                                   (ds, g3) \<Rightarrow> (ds ! 0, g3))) of
                       (dmg, g3) \<Rightarrow>
                         mc_attack_uses atk opts cur_ac cur_mode h
                           (fst st + dmg,
                            if is_melee atk \<or> \<not> rider_melee_only opts then True else snd st)
                           g3)
                  else mc_attack_uses atk opts cur_ac cur_mode h st g2))"

text \<open>The body of \<^verbatim>\<open>for i in range(trials)\<close> for one attack.\<close>

definition mc_trial_step ::
  "attack \<Rightarrow> options \<Rightarrow> int \<Rightarrow> int list \<Rightarrow> string list \<Rightarrow> nat list
   \<Rightarrow> rat list \<times> bool list \<times> rng \<Rightarrow> nat \<Rightarrow> rat list \<times> bool list \<times> rng" where
  "mc_trial_step atk opts bonus current_ac current_mode hits_on_target st i =
     (case st of
        (round_damage, triggered_rider, g) \<Rightarrow>
          if hits_on_target ! i = 0 then st
          else if kind atk = ''save'' then
            (case mc_save_uses atk bonus (hits_on_target ! i) g of
               (d, g1) \<Rightarrow> (round_damage[i := round_damage ! i + d], triggered_rider, g1))
          else
            (case mc_attack_uses atk opts (current_ac ! i) (current_mode ! i) (hits_on_target ! i)
                    (round_damage ! i, triggered_rider ! i) g of
               ((d, tr), g1) \<Rightarrow> (round_damage[i := d], triggered_rider[i := tr], g1)))"

text \<open>The body of \<^verbatim>\<open>for atk in attacks\<close>.\<close>

definition mc_attack_step ::
  "pc_row \<Rightarrow> options \<Rightarrow> int list \<Rightarrow> string list
   \<Rightarrow> rat list \<times> bool list \<times> rng \<Rightarrow> attack \<Rightarrow> rat list \<times> bool list \<times> rng" where
  "mc_attack_step pc opts current_ac current_mode st atk =
     (if uses_per_round atk \<le> 0 then st
      else
        case st of
          (round_damage, triggered_rider, g) \<Rightarrow>
            (case draw_list (mc_trials opts)
                    (binomial_inv (nat (uses_per_round atk)) (nat (max 1 (spread_targets opts)))) g of
               (hits_on_target, g1) \<Rightarrow>
                 let bonus = (if py_upper (save_stat atk) \<in> set SAVE_KEYS
                              then pc_get pc (py_upper (save_stat atk)) else 0)
                 in foldl (mc_trial_step atk opts bonus current_ac current_mode hits_on_target)
                      (round_damage, triggered_rider, g1) [0..<mc_trials opts]))"

text \<open>
  One round. \<^verbatim>\<open>np.full(trials, opts['mode_select'])\<close> is an array of texts of a fixed
  width, the length of the mode (at least one), so a stored \<^verbatim>\<open>adv\<close> is cut to that
  width.
\<close>

definition mc_round ::
  "pc_row \<Rightarrow> attack list \<Rightarrow> options \<Rightarrow> rat
   \<Rightarrow> rat list \<times> int list \<times> rng \<Rightarrow> rat list \<times> int list \<times> rng" where
  "mc_round pc attacks opts thp_avg st =
     (case st of
        (total_damage, rider_remaining, g) \<Rightarrow>
          let trials = mc_trials opts;
              ac = pc_AC pc;
              current_ac = map (\<lambda>i. if rider_mode opts = ''-2 AC next round'' \<and> rider_remaining ! i > 0
                                      then ac - 2 else ac) [0..<trials];
              current_mode = map (\<lambda>i. if rider_mode opts = ''grant advantage on melee next round''
                                          \<and> rider_remaining ! i > 0
                                        then take (max 1 (length (mode_select opts))) ''adv''
                                        else mode_select opts) [0..<trials]
          in case foldl (mc_attack_step pc opts current_ac current_mode)
                    (replicate trials 0, replicate trials False, g) attacks of
               (round_damage, triggered_rider, g1) \<Rightarrow>
                 (map (\<lambda>i. total_damage ! i + max 0 (round_damage ! i - thp_avg)) [0..<trials],
                  map (\<lambda>i. max 0 (if triggered_rider ! i then rider_duration opts
                                    else rider_remaining ! i - 1)) [0..<trials],
                  g1))"

text \<open>\<^verbatim>\<open>_run_mc_sim\<close>: the array of totals (and the generator after the run).\<close>

definition run_mc_sim :: "pc_row \<Rightarrow> attack list \<Rightarrow> options \<Rightarrow> rng \<Rightarrow> rat list \<times> rng" where
  "run_mc_sim pc attacks opts g =
     (let trials = mc_trials opts;
          thp_avg = average_damage (thp_expr opts)
      in case foldl (\<lambda>st _. mc_round pc attacks opts thp_avg st)
                (replicate trials 0, replicate trials 0, g) [0..<mc_rounds opts] of
           (total_damage, rider_remaining, g1) \<Rightarrow> (total_damage, g1))"

subsection \<open>The default configuration of the source\<close>

text \<open>\<^verbatim>\<open>DEFAULT_OPTIONS\<close> and the default roster and attacks of \<^verbatim>\<open>from_profile_dict\<close>.\<close>

definition DEFAULT_OPTIONS :: options where
  "DEFAULT_OPTIONS =
     \<lparr> mode_select = ''normal'', spread_targets = 1, thp_expr = ''1d6+4'',
       lair_enabled = False, lair_avg = 6, lair_targets = 2, lair_every_n = 2,
       rech_enabled = False, recharge_text = ''5-6'', rech_avg = 22, rech_targets = 1,
       rider_mode = ''none'', rider_duration = 1, rider_melee_only = True,
       boss_hp = 150, resist_factor = 1, boss_regen = 0,
       mc_rounds = 3, mc_trials = 10000,
       enc_trials = 10000, enc_max_rounds = 12, enc_use_nova = False,
       dpr_cv = 3 / 5, initiative_mode = ''random'',
       tune_target_median = 4, tune_tpk_cap = 1 / 20 \<rparr>"

definition default_party :: "pc_row list" where
  "default_party =
     [\<lparr> pc_name = ''Fighter'', pc_AC = 18, pc_HP = 40,
        pc_saves = map_of [(''STR'', 4), (''DEX'', 2), (''CON'', 3), (''INT'', 0), (''WIS'', 1), (''CHA'', 0)] \<rparr>,
      \<lparr> pc_name = ''Rogue'', pc_AC = 16, pc_HP = 35,
        pc_saves = map_of [(''STR'', 0), (''DEX'', 5), (''CON'', 2), (''INT'', 1), (''WIS'', 2), (''CHA'', 1)] \<rparr>,
      \<lparr> pc_name = ''Cleric'', pc_AC = 19, pc_HP = 38,
        pc_saves = map_of [(''STR'', 3), (''DEX'', 0), (''CON'', 3), (''INT'', 1), (''WIS'', 4), (''CHA'', 2)] \<rparr>,
      \<lparr> pc_name = ''Wizard'', pc_AC = 13, pc_HP = 30,
        pc_saves = map_of [(''STR'', 0), (''DEX'', 3), (''CON'', 2), (''INT'', 5), (''WIS'', 2), (''CHA'', 1)] \<rparr>]"

definition default_attacks :: "attack list" where
  "default_attacks =
     [\<lparr> name = ''Bite'', kind = ''attack'', attack_bonus = 7, dc = 0, save_stat = ''DEX'',
        damage_expr = ''2d10+5'', uses_per_round = 1, is_melee = True, enabled = True \<rparr>,
      \<lparr> name = ''Claw'', kind = ''attack'', attack_bonus = 7, dc = 0, save_stat = ''DEX'',
        damage_expr = ''2d6+5'', uses_per_round = 2, is_melee = True, enabled = True \<rparr>,
      \<lparr> name = ''Fire Breath'', kind = ''save'', attack_bonus = 0, dc = 15, save_stat = ''DEX'',
        damage_expr = ''8d6'', uses_per_round = 1, is_melee = False, enabled = True \<rparr>]"

subsection \<open>The encounter simulator: data\<close>

text \<open>
  Exceptions that leave \<^verbatim>\<open>_run_encounter_mc\<close>: the \<^verbatim>\<open>KeyError\<close> of
  \<^verbatim>\<open>save_index[atk.save_stat.upper()]\<close> and the \<^verbatim>\<open>ValueError\<close> of
  \<^verbatim>\<open>np.random.choice\<close> with a negative size.
\<close>

datatype error = KeyError | ValueError

primrec fold_res :: "('a \<Rightarrow> 's \<Rightarrow> error + 's) \<Rightarrow> 'a list \<Rightarrow> 's \<Rightarrow> error + 's" where
  "fold_res f [] s = Inr s"
| "fold_res f (x # xs) s = (case f x s of Inl e \<Rightarrow> Inl e | Inr s1 \<Rightarrow> fold_res f xs s1)"

text \<open>
  The application state the simulator reads: the party table, the attack table (rows
  in the shape of \<open>attack\<close>, before \<^verbatim>\<open>attacks_enabled_from_table\<close>), the manual and the
  nova DPR tables, and the options.
\<close>

record nova_row =
  nv_member :: string
  nv_nova_dpr :: rat
  nv_atk_bonus :: int
  nv_roll_mode :: string
  nv_target_ac :: int
  nv_crit_ratio :: rat
  nv_uptime :: rat

record app_state =
  party_table :: "pc_row list"
  attacks_table :: "attack list"
  party_dpr_table :: "(string \<times> rat) list"
  party_nova_table :: "nova_row list"
  app_options :: options

definition attacks_enabled_from_table :: "attack list \<Rightarrow> attack list" where
  "attacks_enabled_from_table tbl =
     map (\<lambda>row. row\<lparr> kind := py_lower (py_strip (kind row)),
                      save_stat := py_upper (save_stat row),
                      uses_per_round := max 0 (uses_per_round row) \<rparr>)
       (filter enabled tbl)"

definition eff_party_dprs :: "app_state \<Rightarrow> bool \<Rightarrow> (string \<times> rat) list" where
  "eff_party_dprs app use_nova =
     (if use_nova then
        map (\<lambda>r. case hit_probs (nv_target_ac r) (nv_atk_bonus r) (nv_roll_mode r) of
                    (p_non, p_crit, p_any) \<Rightarrow>
                      (nv_member r, nv_nova_dpr r * ((p_non + nv_crit_ratio r * p_crit) * nv_uptime r)))
          (party_nova_table app)
      else party_dpr_table app)"

text \<open>
  The arrays of one run, indexed by trial (and by party member): boss HP, party HP and
  alive flags, rider counters, time to kill (\<open>None\<close> is \<^verbatim>\<open>np.inf\<close>), wipe flags, the
  count of members down at the boss's death, and the generator.
\<close>

record enc_state =
  boss_hp_arr :: "rat list"
  pcs_hp :: "rat list list"
  pcs_alive :: "bool list list"
  rider_rem :: "int list list"
  ttk :: "nat option list"
  tpk_flags :: "bool list"
  pcs_down_at_victory :: "nat list"
  gen :: rng

text \<open>The locals of \<^verbatim>\<open>_run_encounter_mc\<close> that stay fixed during the rounds.\<close>

record enc_ctx =
  c_opts :: options
  c_trials :: nat
  c_max_rounds :: nat
  c_resist :: rat
  c_regen :: rat
  c_thp_avg :: rat
  c_spread_targets :: int
  c_init_mode :: string
  c_dpr_cv :: rat
  c_P :: nat
  c_eff_means :: "rat list"
  c_pc_AC :: "int list"
  c_pc_saves :: "int list list"
  c_attacks :: "attack list"

record metrics =
  m_ttk :: "nat option list"
  m_tpk_prob :: "rat option"
  m_pcs_down_at_victory :: "nat list"
  m_times :: "nat list"
  m_survival_curve :: "rat option list"

text \<open>\<^verbatim>\<open>np.mean\<close> of a boolean array; \<open>None\<close> is the NaN of an empty array.\<close>

definition count_true :: "bool list \<Rightarrow> nat" where
  "count_true bs = length (filter (\<lambda>b. b) bs)"

definition np_mean :: "bool list \<Rightarrow> rat option" where
  "np_mean bs = (if bs = [] then None else Some (of_nat (count_true bs) / of_nat (length bs)))"

text \<open>\<^verbatim>\<open>_gamma_rng\<close>: zero for a mean that is not positive, else a draw of the gamma law.\<close>

definition gamma_rng :: "rat \<Rightarrow> rat \<Rightarrow> rng \<Rightarrow> rat \<times> rng" where
  "gamma_rng mean cv g = (if max 0 mean \<le> 0 then (0, g) else nonneg_float g)"

definition ongoing_of :: "enc_ctx \<Rightarrow> enc_state \<Rightarrow> bool list" where
  "ongoing_of cx st = map (\<lambda>t. ttk st ! t = None) [0..<c_trials cx]"

subsection \<open>The encounter simulator: party phase\<close>

text \<open>
  The block that the code has twice, once under \<^verbatim>\<open>mask_party_first\<close> and once under
  \<^verbatim>\<open>mask_party_after\<close>. For member \<open>j\<close> the draws go, in order, to the trials of
  \<open>alive_mask\<close>.
\<close>

definition party_member_step ::
  "enc_ctx \<Rightarrow> bool list \<Rightarrow> bool list list \<Rightarrow> rat list \<times> rng \<Rightarrow> nat \<Rightarrow> rat list \<times> rng" where
  "party_member_step cx msk alive acc j =
     (case acc of
        (dmg_party, g) \<Rightarrow>
          let alive_mask = map (\<lambda>t. msk ! t \<and> alive ! t ! j) [0..<c_trials cx]
          in if count_true alive_mask = 0 then acc
             else
               case draw_list (count_true alive_mask)
                      (gamma_rng (c_eff_means cx ! j) (c_dpr_cv cx)) g of
                 (draws, g1) \<Rightarrow>
                   (map (\<lambda>t. if alive_mask ! t
                              then dmg_party ! t + draws ! count_true (take t alive_mask)
                              else dmg_party ! t) [0..<c_trials cx],
                    g1))"

definition party_phase :: "enc_ctx \<Rightarrow> bool list \<Rightarrow> nat \<Rightarrow> enc_state \<Rightarrow> enc_state" where
  "party_phase cx msk rnd st =
     (let trials = c_trials cx
      in case foldl (party_member_step cx msk (pcs_alive st))
                (replicate trials 0, gen st) [0..<c_P cx] of
           (dmg_party0, g1) \<Rightarrow>
             let dmg_party = map (\<lambda>t. max 0 (dmg_party0 ! t / max (1 / 1000000) (c_resist cx)
                                              - c_regen cx)) [0..<trials];
                 boss_hp1 = map (\<lambda>t. if msk ! t then boss_hp_arr st ! t - dmg_party ! t
                                       else boss_hp_arr st ! t) [0..<trials];
                 newly_dead = map (\<lambda>t. boss_hp1 ! t \<le> 0 \<and> msk ! t \<and> ttk st ! t = None) [0..<trials]
             in st\<lparr> boss_hp_arr := boss_hp1,
                    ttk := map (\<lambda>t. if newly_dead ! t then Some rnd else ttk st ! t) [0..<trials],
                    pcs_down_at_victory :=
                      map (\<lambda>t. if newly_dead ! t
                                then length (filter (\<lambda>b. \<not> b) (pcs_alive st ! t))
                                else pcs_down_at_victory st ! t) [0..<trials],
                    gen := g1 \<rparr>)"

subsection \<open>The encounter simulator: boss phase\<close>

text \<open>
  The per-round overrides of AC and roll mode from the rider counters. With the rider
  \<^verbatim>\<open>-2 AC next round\<close> an entry with an active counter is \<^verbatim>\<open>np.maximum(1, AC - 2)\<close>.
\<close>

definition enc_current_ac :: "enc_ctx \<Rightarrow> int list list \<Rightarrow> int list list" where
  "enc_current_ac cx rider =
     map (\<lambda>t. map (\<lambda>j. if rider_mode (c_opts cx) = ''-2 AC next round'' \<and> rider ! t ! j > 0
                        then max 1 (c_pc_AC cx ! j - 2) else c_pc_AC cx ! j) [0..<c_P cx])
       [0..<c_trials cx]"

definition enc_current_mode :: "enc_ctx \<Rightarrow> int list list \<Rightarrow> string list list" where
  "enc_current_mode cx rider =
     map (\<lambda>t. map (\<lambda>j. if rider_mode (c_opts cx) = ''grant advantage on melee next round''
                           \<and> rider ! t ! j > 0
                        then ''adv'' else mode_select (c_opts cx)) [0..<c_P cx])
       [0..<c_trials cx]"

text \<open>\<^verbatim>\<open>np.where(row)[0]\<close>: the indices of the living members of one trial.\<close>

definition alive_indices :: "bool list \<Rightarrow> nat list" where
  "alive_indices row = filter (\<lambda>j. row ! j) [0..<length row]"

definition np_any :: "bool list \<Rightarrow> bool" where
  "np_any bs = (True \<in> set bs)"

text \<open>The target pool of one ongoing trial for this round.\<close>

definition pool_step ::
  "enc_ctx \<Rightarrow> bool list \<Rightarrow> bool list list \<Rightarrow> nat list option list \<times> rng \<Rightarrow> nat
   \<Rightarrow> nat list option list \<times> rng" where
  "pool_step cx ongoing alive acc t =
     (case acc of
        (round_pool, g) \<Rightarrow>
          if \<not> ongoing ! t then acc
          else
            let alive_t = alive_indices (alive ! t)
            in if alive_t = [] then acc
               else
                 let k = min (c_spread_targets cx) (int (length alive_t))
                 in case choice_distinct (nat k) alive_t g of
                      (chosen, g1) \<Rightarrow> (round_pool[t := Some chosen], g1))"

text \<open>
  \<^verbatim>\<open>pcs_hp[t, idx] -= dealt\<close>, then the member is marked dead at HP \<open>\<le> 0\<close>; the code
  has these two lines in the attack loop, the lair action and the recharge action.
\<close>

definition apply_damage ::
  "nat \<Rightarrow> nat \<Rightarrow> rat \<Rightarrow> rat list list \<Rightarrow> bool list list \<Rightarrow> rat list list \<times> bool list list" where
  "apply_damage t idx dealt hp alive =
     (let hp1 = hp[t := (hp ! t)[idx := hp ! t ! idx - dealt]]
      in (hp1,
          if hp1 ! t ! idx \<le> 0 \<and> alive ! t ! idx
          then alive[t := (alive ! t)[idx := False]] else alive))"

definition save_index :: "string \<Rightarrow> nat option" where
  "save_index k = map_of (zip SAVE_KEYS [0..<length SAVE_KEYS]) k"

text \<open>A save-type use against \<open>target\<close>: the damage dealt, or the \<^verbatim>\<open>KeyError\<close>.\<close>

definition enc_save_success :: "int \<Rightarrow> int \<Rightarrow> int \<Rightarrow> bool" where
  "enc_save_success roll bonus dc_val = (roll = 20 \<or> (roll + bonus \<ge> dc_val \<and> roll \<noteq> 1))"

definition enc_resolve_save :: "enc_ctx \<Rightarrow> attack \<Rightarrow> nat \<Rightarrow> rng \<Rightarrow> error + (rat \<times> rng)" where
  "enc_resolve_save cx atk target g =
     (case save_index (py_upper (save_stat atk)) of
        None \<Rightarrow> Inl KeyError
      | Some si \<Rightarrow>
          let bonus = c_pc_saves cx ! target ! si
          in case randint 1 20 g of
               (roll, g1) \<Rightarrow>
                 (case roll_damage (damage_expr atk) 1 g1 of
                    (ds, g2) \<Rightarrow>
                      let dmg = ds ! 0
                      in Inr (if enc_save_success roll bonus (dc atk) then dmg / 2 else dmg, g2)))"

text \<open>
  An attack-roll use against a target of effective AC \<open>cur_ac\<close> and roll mode
  \<open>cur_mode\<close>: the damage dealt and whether the hit sets the rider.
\<close>

definition enc_resolve_attack ::
  "enc_ctx \<Rightarrow> attack \<Rightarrow> int \<Rightarrow> string \<Rightarrow> rng \<Rightarrow> rat \<times> bool \<times> rng" where
  "enc_resolve_attack cx atk cur_ac cur_mode g =
     (case randint 1 20 g of
        (r1, g1) \<Rightarrow>
          (case randint 1 20 g1 of
             (r2, g2) \<Rightarrow>
               let r0 = r1;
                   ra = (if cur_mode = ''adv'' then max r1 r2 else r0);
                   r = (if cur_mode = ''dis'' then min r1 r2 else ra);
                   is_crit = (r = 20);
                   is_hit = (is_crit \<or> (r \<noteq> 1 \<and> r + attack_bonus atk \<ge> cur_ac))
               in if \<not> is_hit then (0, False, g2)
                  else
                    (case (if is_crit then roll_damage_crunchy_crit (damage_expr atk) g2
                           else (case roll_damage (damage_expr atk) 1 g2 of
                                   (ds, g3) \<Rightarrow> (ds ! 0, g3))) of
                       (dealt, g3) \<Rightarrow>
                         (dealt, is_melee atk \<or> \<not> rider_melee_only (c_opts cx), g3))))"

text \<open>
  One use of one attack in one ongoing trial; the state is \<open>pcs_hp\<close>, \<open>pcs_alive\<close>,
  \<open>rider_trig\<close> and the generator.
\<close>

definition enc_use_step ::
  "enc_ctx \<Rightarrow> attack \<Rightarrow> int list list \<Rightarrow> string list list \<Rightarrow> nat list option list \<Rightarrow> nat
   \<Rightarrow> rat list list \<times> bool list list \<times> bool list list \<times> rng
   \<Rightarrow> error + (rat list list \<times> bool list list \<times> bool list list \<times> rng)" where
  "enc_use_step cx atk current_ac current_mode round_pool t st =
     (case st of
        (hp, alive, rider_trig, g) \<Rightarrow>
          (case round_pool ! t of
             None \<Rightarrow> Inr st
           | Some pool \<Rightarrow>
               if pool = [] then Inr st
               else
                 let alive_pool0 = filter (\<lambda>idx. alive ! t ! idx) pool;
                     alive_now = alive_indices (alive ! t)
                 in if alive_pool0 = [] \<and> alive_now = [] then Inr st
                    else
                      (case choice_one (if alive_pool0 = [] then alive_now else alive_pool0) g of
                         (target, g1) \<Rightarrow>
                           if \<not> alive ! t ! target then Inr (hp, alive, rider_trig, g1)
                           else if kind atk = ''save'' then
                             (case enc_resolve_save cx atk target g1 of
                                Inl e \<Rightarrow> Inl e
                              | Inr (dealt0, g2) \<Rightarrow>
                                  (case apply_damage t target (max 0 (dealt0 - c_thp_avg cx)) hp alive of
                                     (hp1, alive1) \<Rightarrow> Inr (hp1, alive1, rider_trig, g2)))
                           else
                             (case enc_resolve_attack cx atk (current_ac ! t ! target)
                                     (current_mode ! t ! target) g1 of
                                (dealt0, trig, g2) \<Rightarrow>
                                  (case apply_damage t target (max 0 (dealt0 - c_thp_avg cx)) hp alive of
                                     (hp1, alive1) \<Rightarrow>
                                       Inr (hp1, alive1,
                                            if trig
                                            then rider_trig[t := (rider_trig ! t)[target := True]]
                                            else rider_trig,
                                            g2))))))"

text \<open>
  The block shared by the lair and the recharge action for one trial: up to \<open>cap\<close>
  living members, chosen without replacement, each take a gamma draw of mean \<open>avg\<close>
  and coefficient of variation one half, less the temporary HP.
\<close>

definition area_hit ::
  "enc_ctx \<Rightarrow> rat \<Rightarrow> nat \<Rightarrow> rat list list \<times> bool list list \<times> rng \<Rightarrow> nat
   \<Rightarrow> rat list list \<times> bool list list \<times> rng" where
  "area_hit cx avg t st idx =
     (case st of
        (hp, alive, g) \<Rightarrow>
          (case gamma_rng avg (1 / 2) g of
             (dealt0, g1) \<Rightarrow>
               (case apply_damage t idx (max 0 (dealt0 - c_thp_avg cx)) hp alive of
                  (hp1, alive1) \<Rightarrow> (hp1, alive1, g1))))"

definition area_damage ::
  "enc_ctx \<Rightarrow> int \<Rightarrow> rat \<Rightarrow> nat \<Rightarrow> rat list list \<times> bool list list \<times> rng
   \<Rightarrow> error + (rat list list \<times> bool list list \<times> rng)" where
  "area_damage cx cap avg t st =
     (case st of
        (hp, alive, g) \<Rightarrow>
          let alive_idxs = alive_indices (alive ! t)
          in if alive_idxs = [] then Inr st
             else
               let n_targets = min cap (int (length alive_idxs))
               in if n_targets < 0 then Inl ValueError
                  else
                    (case choice_distinct (nat n_targets) alive_idxs g of
                       (targets, g1) \<Rightarrow> Inr (foldl (area_hit cx avg t) (hp, alive, g1) targets)))"

definition recharge_step ::
  "enc_ctx \<Rightarrow> rat \<Rightarrow> int \<Rightarrow> rat \<Rightarrow> nat \<Rightarrow> rat list list \<times> bool list list \<times> rng
   \<Rightarrow> error + (rat list list \<times> bool list list \<times> rng)" where
  "recharge_step cx p_rech cap avg t st =
     (case st of
        (hp, alive, g) \<Rightarrow>
          (case unit_float g of
             (u, g1) \<Rightarrow>
               if u < p_rech then area_damage cx cap avg t (hp, alive, g1)
               else Inr (hp, alive, g1)))"

text \<open>
  The boss phase of one round, for all ongoing trials: target pools, attacks, lair and
  recharge actions, then the rider counters and the wipe flags. It leaves \<open>boss_hp_arr\<close>
  and \<open>ttk\<close> as they are.
\<close>

definition boss_phase :: "enc_ctx \<Rightarrow> nat \<Rightarrow> enc_state \<Rightarrow> error + enc_state" where
  "boss_phase cx rnd st =
     (let opts = c_opts cx;
          trials = c_trials cx;
          ongoing = ongoing_of cx st;
          ongoing_idx = filter (\<lambda>t. ongoing ! t) [0..<trials];
          current_ac = enc_current_ac cx (rider_rem st);
          current_mode = enc_current_mode cx (rider_rem st);
          rider_trig0 = replicate trials (replicate (c_P cx) False)
      in case foldl (pool_step cx ongoing (pcs_alive st)) (replicate trials None, gen st) [0..<trials] of
           (round_pool, g1) \<Rightarrow>
             (case fold_res
                     (\<lambda>atk s.
                        if uses_per_round atk \<le> 0 then Inr s
                        else fold_res
                               (\<lambda>use s1.
                                  fold_res (enc_use_step cx atk current_ac current_mode round_pool)
                                    ongoing_idx s1)
                               [0..<nat (uses_per_round atk)] s)
                     (c_attacks cx) (pcs_hp st, pcs_alive st, rider_trig0, g1) of
                Inl e \<Rightarrow> Inl e
              | Inr (hp1, alive1, rider_trig, g2) \<Rightarrow>
                  (case (if lair_enabled opts \<and> int rnd mod max 1 (lair_every_n opts) = 0
                         then fold_res (area_damage cx (lair_targets opts) (lair_avg opts))
                                ongoing_idx (hp1, alive1, g2)
                         else Inr (hp1, alive1, g2)) of
                     Inl e \<Rightarrow> Inl e
                   | Inr s2 \<Rightarrow>
                       (case (if rech_enabled opts
                              then fold_res
                                     (recharge_step cx (parse_recharge (recharge_text opts))
                                        (rech_targets opts) (rech_avg opts))
                                     ongoing_idx s2
                              else Inr s2) of
                          Inl e \<Rightarrow> Inl e
                        | Inr (hp3, alive3, g4) \<Rightarrow>
                            Inr (st\<lparr> pcs_hp := hp3,
                                     pcs_alive := alive3,
                                     rider_rem :=
                                       map (\<lambda>t. map (\<lambda>j. if rider_trig ! t ! j
                                                          then rider_duration opts
                                                          else max 0 (rider_rem st ! t ! j - 1))
                                                  [0..<c_P cx]) [0..<trials],
                                     tpk_flags :=
                                       map (\<lambda>t. if ongoing ! t \<and> count_true (alive3 ! t) = 0
                                                 then True else tpk_flags st ! t) [0..<trials],
                                     gen := g4 \<rparr>)))))"

subsection \<open>The encounter simulator: rounds and metrics\<close>

definition boss_goes_first :: "enc_ctx \<Rightarrow> nat \<Rightarrow> rng \<Rightarrow> bool list \<times> rng" where
  "boss_goes_first cx n g =
     (if c_init_mode cx = ''boss_first'' then (replicate n True, g)
      else if c_init_mode cx = ''party_first'' then (replicate n False, g)
      else draw_list n (bernoulli_inv 2) g)"

text \<open>The body of \<^verbatim>\<open>for rnd in range(1, max_rounds + 1)\<close> behind the \<^verbatim>\<open>break\<close> test.\<close>

definition enc_round :: "enc_ctx \<Rightarrow> nat \<Rightarrow> enc_state \<Rightarrow> error + enc_state" where
  "enc_round cx rnd st =
     (let trials = c_trials cx;
          ongoing = ongoing_of cx st
      in case boss_goes_first cx trials (gen st) of
           (boss_first_flags, g1) \<Rightarrow>
             let mask_party_first = map (\<lambda>t. ongoing ! t \<and> \<not> boss_first_flags ! t) [0..<trials];
                 st1 = (if np_any mask_party_first
                        then party_phase cx mask_party_first rnd (st\<lparr>gen := g1\<rparr>)
                        else st\<lparr>gen := g1\<rparr>)
             in case (if np_any (ongoing_of cx st1) then boss_phase cx rnd st1 else Inr st1) of
                  Inl e \<Rightarrow> Inl e
                | Inr st2 \<Rightarrow>
                    let ongoing2 = ongoing_of cx st2;
                        mask_party_after = map (\<lambda>t. ongoing2 ! t \<and> boss_first_flags ! t) [0..<trials]
                    in Inr (if np_any mask_party_after
                            then party_phase cx mask_party_after rnd st2
                            else st2))"

primrec enc_rounds :: "enc_ctx \<Rightarrow> nat list \<Rightarrow> enc_state \<Rightarrow> error + enc_state" where
  "enc_rounds cx [] st = Inr st"
| "enc_rounds cx (rnd # rest) st =
     (if \<not> np_any (ongoing_of cx st) then Inr st
      else case enc_round cx rnd st of
             Inl e \<Rightarrow> Inl e
           | Inr st1 \<Rightarrow> enc_rounds cx rest st1)"

definition enc_metrics :: "enc_ctx \<Rightarrow> enc_state \<Rightarrow> metrics" where
  "enc_metrics cx st =
     (let trials = c_trials cx;
          times_arr = [0..<Suc (c_max_rounds cx)]
      in \<lparr> m_ttk = ttk st,
           m_tpk_prob = np_mean (tpk_flags st),
           m_pcs_down_at_victory =
             map (\<lambda>t. pcs_down_at_victory st ! t) (filter (\<lambda>t. ttk st ! t \<noteq> None) [0..<trials]),
           m_times = times_arr,
           m_survival_curve =
             map (\<lambda>t. np_mean (map (\<lambda>k. case ttk st ! k of None \<Rightarrow> True | Some r \<Rightarrow> t < r)
                                  [0..<trials])) times_arr \<rparr>)"

text \<open>
  \<^verbatim>\<open>_run_encounter_mc\<close>. \<open>Inr (None, g)\<close> is the rejection of a configuration with
  no party, no boss offense or no DPR source (the warning dialog and \<^verbatim>\<open>return None\<close>);
  \<open>Inl e\<close> is an exception that leaves the function. \<^verbatim>\<open>dict(eff_list)\<close> keeps the last
  entry of a name.
\<close>

definition enc_context :: "app_state \<Rightarrow> enc_ctx" where
  "enc_context app =
     (let opts = app_options app;
          party = party_table app;
          eff_by_name = map_of (rev (eff_party_dprs app (enc_use_nova opts)))
      in \<lparr> c_opts = opts,
           c_trials = enc_trials opts,
           c_max_rounds = enc_max_rounds opts,
           c_resist = resist_factor opts,
           c_regen = boss_regen opts,
           c_thp_avg = max 0 (average_damage (thp_expr opts)),
           c_spread_targets = max 1 (spread_targets opts),
           c_init_mode = initiative_mode opts,
           c_dpr_cv = dpr_cv opts,
           c_P = length party,
           c_eff_means = map (\<lambda>pc. case eff_by_name (pc_name pc) of Some v \<Rightarrow> v | None \<Rightarrow> 0) party,
           c_pc_AC = map pc_AC party,
           c_pc_saves = map (\<lambda>pc. map (pc_get pc) SAVE_KEYS) party,
           c_attacks = attacks_enabled_from_table (attacks_table app) \<rparr>)"

definition enc_initial :: "app_state \<Rightarrow> rng \<Rightarrow> enc_state" where
  "enc_initial app g =
     (let opts = app_options app;
          party = party_table app;
          trials = enc_trials opts
      in \<lparr> boss_hp_arr = replicate trials (of_int (boss_hp opts)),
           pcs_hp = replicate trials (map (\<lambda>pc. of_int (pc_HP pc)) party),
           pcs_alive = replicate trials (replicate (length party) True),
           rider_rem = replicate trials (replicate (length party) 0),
           ttk = replicate trials None,
           tpk_flags = replicate trials False,
           pcs_down_at_victory = replicate trials 0,
           gen = g \<rparr>)"

definition run_encounter_mc :: "app_state \<Rightarrow> rng \<Rightarrow> error + (metrics option \<times> rng)" where
  "run_encounter_mc app g =
     (let opts = app_options app
      in if party_table app = [] then Inr (None, g)
         else if attacks_enabled_from_table (attacks_table app) = []
                 \<and> \<not> (lair_enabled opts \<or> rech_enabled opts) then Inr (None, g)
         else if eff_party_dprs app (enc_use_nova opts) = [] then Inr (None, g)
         else
           case enc_rounds (enc_context app) [1..<Suc (enc_max_rounds opts)] (enc_initial app g) of
             Inl e \<Rightarrow> Inl e
           | Inr st \<Rightarrow> Inr (Some (enc_metrics (enc_context app) st), gen st))"

subsection \<open>The invariant of the round loop\<close>

text \<open>
  The invariant of the round loop: one time-to-kill entry and one wipe flag per trial,
  and every recorded time to kill is a round number between 1 and the bound \<open>R\<close>.
\<close>

definition enc_inv :: "enc_ctx \<Rightarrow> nat \<Rightarrow> enc_state \<Rightarrow> bool" where
  "enc_inv cx R st =
     (length (ttk st) = c_trials cx \<and> length (tpk_flags st) = c_trials cx
      \<and> list_all (\<lambda>x. case x of None \<Rightarrow> True | Some r \<Rightarrow> 1 \<le> r \<and> r \<le> R) (ttk st))"

subsection \<open>A small encounter\<close>

text \<open>
  The default Fighter against the default Bite, with a manual DPR of 15, a boss of 5 HP,
  two trials, two rounds and the party acting first.
\<close>

definition small_encounter :: app_state where
  "small_encounter =
     \<lparr> party_table = take 1 default_party,
       attacks_table = take 1 default_attacks,
       party_dpr_table = [(''Fighter'', 15)],
       party_nova_table = [],
       app_options = DEFAULT_OPTIONS\<lparr> enc_trials := 2, enc_max_rounds := 2, boss_hp := 5,
                                       initiative_mode := ''party_first'' \<rparr> \<rparr>"

subsection \<open>The auto-tuner\<close>

text \<open>
  Python's \<^verbatim>\<open>round\<close> of a float: the nearest integer, a tie going to the even
  neighbour. \<^verbatim>\<open>np.median\<close> of a non-empty array. \<open>finite_ttk\<close> is
  \<^verbatim>\<open>ttk[np.isfinite(ttk)]\<close>.
\<close>

definition py_round :: "rat \<Rightarrow> int" where
  "py_round x =
     (let f = \<lfloor>x\<rfloor>; d = x - of_int f
      in if d < 1 / 2 then f
         else if d > 1 / 2 then f + 1
         else if even f then f else f + 1)"

definition np_median :: "rat list \<Rightarrow> rat" where
  "np_median xs =
     (let s = sort xs; n = length s
      in if odd n then s ! (n div 2) else (s ! (n div 2 - 1) + s ! (n div 2)) / 2)"

definition finite_ttk :: "nat option list \<Rightarrow> rat list" where
  "finite_ttk xs = concat (map (\<lambda>x. case x of None \<Rightarrow> [] | Some r \<Rightarrow> [of_nat r]) xs)"

text \<open>
  A median is a \<open>rat option\<close> with \<open>None\<close> for \<^verbatim>\<open>math.inf\<close>; the comparisons of the
  tuner with the finite target, written out.
\<close>

definition med_lt :: "rat option \<Rightarrow> rat \<Rightarrow> bool" where
  "med_lt m target = (case m of None \<Rightarrow> False | Some v \<Rightarrow> v < target)"

definition med_gt :: "rat option \<Rightarrow> rat \<Rightarrow> bool" where
  "med_gt m target = (case m of None \<Rightarrow> True | Some v \<Rightarrow> v > target)"

definition med_le :: "rat option \<Rightarrow> rat \<Rightarrow> bool" where
  "med_le m target = (case m of None \<Rightarrow> False | Some v \<Rightarrow> v \<le> target)"

definition med_ge :: "rat option \<Rightarrow> rat \<Rightarrow> bool" where
  "med_ge m target = (case m of None \<Rightarrow> True | Some v \<Rightarrow> v \<ge> target)"

definition med_close :: "rat option \<Rightarrow> rat \<Rightarrow> bool" where
  "med_close m target = (case m of None \<Rightarrow> False | Some v \<Rightarrow> \<bar>v - target\<bar> < 1 / 20)"

text \<open>The outcome of a tuning run: the two warnings, or the tuned HP with the median
  and wipe probability of the final run and whether the wipe cap is exceeded.\<close>

datatype tune_result =
  Infeasible
  | SimulationFailed
  | Tuned int "rat option" "rat option" bool

definition set_hp_trials :: "app_state \<Rightarrow> int \<Rightarrow> nat \<Rightarrow> app_state" where
  "set_hp_trials app hp trials =
     app\<lparr>app_options := (app_options app)\<lparr>boss_hp := hp, enc_trials := trials\<rparr>\<rparr>"

definition median_of :: "metrics \<Rightarrow> rat option" where
  "median_of m =
     (let ttk_alive = finite_ttk (m_ttk m)
      in if ttk_alive = [] then None else Some (np_median ttk_alive))"

text \<open>
  The nested \<^verbatim>\<open>simulate_with_hp\<close>: it writes the HP and the trial count into the options
  and runs the encounter simulator. The result is the median and the wipe probability,
  the application state with the changed options, and the generator.
\<close>

definition simulate_with_hp ::
  "rat \<Rightarrow> nat \<Rightarrow> app_state \<Rightarrow> rng
   \<Rightarrow> error + ((rat option \<times> rat option) \<times> app_state \<times> rng)" where
  "simulate_with_hp hp trials app g =
     (let app1 = set_hp_trials app (max 1 (py_round hp)) trials
      in case run_encounter_mc app1 g of
           Inl e \<Rightarrow> Inl e
         | Inr (None, g1) \<Rightarrow> Inr ((None, Some 1), app1, g1)
         | Inr (Some m, g1) \<Rightarrow> Inr ((median_of m, m_tpk_prob m), app1, g1))"

text \<open>
  \<^verbatim>\<open>while med_high < target and attempts < 12\<close>; the first argument counts the attempts
  that are left.
\<close>

primrec escalate ::
  "nat \<Rightarrow> rat \<Rightarrow> nat \<Rightarrow> rat \<Rightarrow> rat option \<Rightarrow> app_state \<Rightarrow> rng
   \<Rightarrow> error + (rat \<times> rat option \<times> app_state \<times> rng)" where
  "escalate 0 target quick_trials high med_high app g = Inr (high, med_high, app, g)"
| "escalate (Suc n) target quick_trials high med_high app g =
     (if med_lt med_high target then
        (case simulate_with_hp (high * 2) quick_trials app g of
           Inl e \<Rightarrow> Inl e
         | Inr ((med_high1, tpk_high1), app1, g1) \<Rightarrow>
             escalate n target quick_trials (high * 2) med_high1 app1 g1)
      else Inr (high, med_high, app, g))"

text \<open>
  The bracket search up to the bracket test: \<open>low\<close>, \<open>high\<close>, their medians, the
  application state and the generator. \<^verbatim>\<open>int(original_trials * 0.4)\<close> is taken exactly.
\<close>

definition tune_bracket ::
  "app_state \<Rightarrow> rng \<Rightarrow> error + (rat \<times> rat \<times> rat option \<times> rat option \<times> app_state \<times> rng)" where
  "tune_bracket app g =
     (let opts = app_options app;
          target = tune_target_median opts;
          original_hp = of_int (boss_hp opts);
          original_trials = enc_trials opts;
          quick_trials = max 3000 (original_trials * 2 div 5);
          low = 1;
          high = max 10 original_hp
      in case simulate_with_hp low quick_trials app g of
           Inl e \<Rightarrow> Inl e
         | Inr ((med_low, tpk_low), app1, g1) \<Rightarrow>
             (case simulate_with_hp high quick_trials app1 g1 of
                Inl e \<Rightarrow> Inl e
              | Inr ((med_high, tpk_high), app2, g2) \<Rightarrow>
                  (case escalate 12 target quick_trials high med_high app2 g2 of
                     Inl e \<Rightarrow> Inl e
                   | Inr (high1, med_high1, app3, g3) \<Rightarrow>
                       if med_gt med_low target then
                         (case simulate_with_hp 1 quick_trials app3 g3 of
                            Inl e \<Rightarrow> Inl e
                          | Inr ((med_low1, tpk_low1), app4, g4) \<Rightarrow>
                              Inr (1, high1, med_low1, med_high1, app4, g4))
                       else Inr (low, high1, med_low, med_high1, app3, g3))))"

text \<open>\<^verbatim>\<open>for _ in range(16)\<close> with its \<^verbatim>\<open>break\<close>; the first argument counts the
  iterations that are left.\<close>

primrec tune_bisect ::
  "nat \<Rightarrow> rat \<Rightarrow> nat \<Rightarrow> rat \<Rightarrow> rat \<Rightarrow> app_state \<Rightarrow> rng
   \<Rightarrow> error + (rat \<times> rat \<times> app_state \<times> rng)" where
  "tune_bisect 0 target quick_trials low high app g = Inr (low, high, app, g)"
| "tune_bisect (Suc n) target quick_trials low high app g =
     (let mid = (low + high) / 2
      in case simulate_with_hp mid quick_trials app g of
           Inl e \<Rightarrow> Inl e
         | Inr ((med_mid, tpk_mid), app1, g1) \<Rightarrow>
             let low1 = (if med_ge med_mid target then low else mid);
                 high1 = (if med_ge med_mid target then mid else high)
             in if med_close med_mid target then Inr (low1, high1, app1, g1)
                else tune_bisect n target quick_trials low1 high1 app1 g1)"

text \<open>
  The final full simulation at \<^verbatim>\<open>int(round(high))\<close> with the original trial count.
\<close>

definition tune_final ::
  "int \<Rightarrow> nat \<Rightarrow> rat \<Rightarrow> rat \<Rightarrow> app_state \<Rightarrow> rng \<Rightarrow> error + (tune_result \<times> app_state \<times> rng)" where
  "tune_final original_hp original_trials tpk_cap high app g =
     (let tuned_hp = py_round high;
          app1 = set_hp_trials app tuned_hp original_trials
      in case run_encounter_mc app1 g of
           Inl e \<Rightarrow> Inl e
         | Inr (None, g1) \<Rightarrow>
             Inr (SimulationFailed, set_hp_trials app1 original_hp original_trials, g1)
         | Inr (Some m, g1) \<Rightarrow>
             Inr (Tuned tuned_hp (median_of m) (m_tpk_prob m)
                    (case m_tpk_prob m of None \<Rightarrow> False
                     | Some tpk \<Rightarrow> tpk > tpk_cap + 1 / 1000000000),
                  app1, g1))"

text \<open>
  \<^verbatim>\<open>_on_auto_tune\<close>, behind \<^verbatim>\<open>_pull_all_ui\<close>: the outcome, the application state it
  leaves and the generator.
\<close>

definition on_auto_tune :: "app_state \<Rightarrow> rng \<Rightarrow> error + (tune_result \<times> app_state \<times> rng)" where
  "on_auto_tune app g =
     (let opts = app_options app;
          target = tune_target_median opts;
          tpk_cap = tune_tpk_cap opts;
          original_hp = boss_hp opts;
          original_trials = enc_trials opts;
          quick_trials = max 3000 (original_trials * 2 div 5)
      in case tune_bracket app g of
           Inl e \<Rightarrow> Inl e
         | Inr (low, high, med_low, med_high, app1, g1) \<Rightarrow>
             if \<not> (med_le med_low target \<and> med_ge med_high target)
             then Inr (Infeasible, set_hp_trials app1 original_hp original_trials, g1)
             else
               (case tune_bisect 16 target quick_trials low high app1 g1 of
                  Inl e \<Rightarrow> Inl e
                | Inr (low2, high2, app2, g2) \<Rightarrow>
                    tune_final original_hp original_trials tpk_cap high2 app2 g2))"

subsection \<open>An encounter that ends in the first round\<close>

text \<open>
  The default Fighter with a manual DPR of 200 acts first against a boss of 148 HP, the
  target median is one round, everything else is the default configuration. In
  \<open>steady_src\<close> every draw of the party's damage is 200, the mean.
\<close>

definition steady_src :: "nat \<Rightarrow> nat" where
  "steady_src i = (if even i then 200 else 0)"

definition tie_encounter :: app_state where
  "tie_encounter =
     \<lparr> party_table = take 1 default_party,
       attacks_table = default_attacks,
       party_dpr_table = [(''Fighter'', 200)],
       party_nova_table = [],
       app_options = DEFAULT_OPTIONS\<lparr> boss_hp := 148, tune_target_median := 1,
                                       initiative_mode := ''party_first'' \<rparr> \<rparr>"

subsection \<open>An encounter with the AC rider\<close>


section \<open>Verified properties\<close>

subsection \<open>Auxiliary facts about sums and counts\<close>

lemma foldl_add_sum_list: "foldl (\<lambda>acc x. acc + x) a xs = (a::'a::monoid_add) + sum_list xs"
  by (induction xs arbitrary: a) (simp_all add: add.assoc)

lemma py_sum_sum_list: "py_sum xs = sum_list xs"
  by (simp add: py_sum_def foldl_add_sum_list)

lemma py_sum_ones: "py_sum (map (\<lambda>_. 1::int) xs) = int (length xs)"
  by (simp add: py_sum_sum_list sum_list_triv)

subsection \<open>The tokens of the damage parser are integers\<close>

text \<open>
  Every text that \<open>parse_damage_expression\<close> hands to \<open>safe_int\<close> is read by
  \<open>py_int\<close>, so the default of \<open>safe_int\<close> (and the float fallback of the source)
  is never used there.
\<close>

lemma int_digits_total:
  assumes "list_all is_digit ds"
  shows "\<exists>v. int_digits a ds = Some v"
  using assms by (induction ds arbitrary: a) simp_all

lemma int_unsigned_total:
  assumes "ds \<noteq> []" and "list_all is_digit ds"
  shows "\<exists>v. int_unsigned ds = Some v"
proof -
  from assms obtain c r where d: "ds = c # r" by (cases ds) auto
  with assms(2) have "is_digit c" by simp
  then show ?thesis
    using int_digits_total [OF assms(2), of 0] d by (simp add: int_unsigned_def)
qed

lemma digit_not_space: "is_digit c \<Longrightarrow> \<not> int_isspace c"
  by (auto simp: is_digit_def int_isspace_def)

lemma digit_not_sign: "is_digit c \<Longrightarrow> c \<noteq> CHR ''-'' \<and> c \<noteq> CHR ''+''"
  by (auto simp: is_digit_def)

lemma sign_not_space: "is_sign c \<Longrightarrow> \<not> int_isspace c"
  by (auto simp: is_sign_def int_isspace_def)

lemma int_strip_id:
  assumes "list_all (\<lambda>c. \<not> int_isspace c) s"
  shows "int_strip s = s"
proof -
  have a: "\<And>xs. list_all (\<lambda>c. \<not> int_isspace c) xs \<Longrightarrow> dropWhile int_isspace xs = xs"
    by (simp add: dropWhile_eq_self_iff list_all_iff)
  have "list_all (\<lambda>c. \<not> int_isspace c) (rev s)"
    using assms by (simp add: list_all_iff)
  then show ?thesis
    using a [OF assms] a [of "rev s"] by (simp add: int_strip_def)
qed

lemma signed_digits_parse:
  assumes "sg = [] \<or> (\<exists>c. sg = [c] \<and> is_sign c)" and "ds \<noteq> []" and "list_all is_digit ds"
  shows "py_int (sg @ ds) \<noteq> None"
proof -
  have ns: "list_all (\<lambda>c. \<not> int_isspace c) (sg @ ds)"
    using assms(1,3) by (auto simp: list_all_iff digit_not_space sign_not_space)
  from int_unsigned_total [OF assms(2,3)] obtain v where v: "int_unsigned ds = Some v"
    by blast
  from assms(2) obtain d r where d: "ds = d # r" by (cases ds) auto
  with assms(3) have dd: "is_digit d" by simp
  from assms(1) show ?thesis
  proof
    assume "sg = []"
    then show ?thesis
      using v d digit_not_sign [OF dd] int_strip_id [OF ns] by (simp add: py_int_def)
  next
    assume "\<exists>c. sg = [c] \<and> is_sign c"
    then obtain c where "sg = [c]" and "is_sign c" by blast
    then show ?thesis
      using v int_strip_id [OF ns] by (auto simp: py_int_def is_sign_def)
  qed
qed

lemma takeWhile_digits: "list_all is_digit (takeWhile is_digit xs)"
  by (simp add: list_all_iff) (metis set_takeWhileD)

lemma match_int_parses:
  assumes "match_int s = Some (tok, rest)"
  shows "py_int tok \<noteq> None"
proof (cases s)
  case Nil
  with assms show ?thesis by (simp add: match_int_def)
next
  case (Cons c r)
  show ?thesis
  proof (cases "is_sign c")
    case True
    with assms Cons have "tok = [c] @ takeWhile is_digit r" and "takeWhile is_digit r \<noteq> []"
      by (auto simp: match_int_def split: if_splits)
    then show ?thesis
      using signed_digits_parse [of "[c]" "takeWhile is_digit r"] True takeWhile_digits by simp
  next
    case False
    with assms Cons have "tok = [] @ takeWhile is_digit s" and "takeWhile is_digit s \<noteq> []"
      by (auto simp: match_int_def split: if_splits)
    then show ?thesis
      using signed_digits_parse [of "[]" "takeWhile is_digit s"] takeWhile_digits by simp
  qed
qed

lemma findall_int_parses: "tok \<in> set (findall_int s) \<Longrightarrow> py_int tok \<noteq> None"
proof (induction "length s" arbitrary: s rule: less_induct)
  case less
  show ?case
  proof (cases s)
    case Nil
    with less.prems show ?thesis by simp
  next
    case (Cons c cs)
    show ?thesis
    proof (cases "match_int (c # cs)")
      case None
      with less.prems Cons have "tok \<in> set (findall_int cs)" by simp
      moreover have "length cs < length s" using Cons by simp
      ultimately show ?thesis by (rule less.hyps [rotated])
    next
      case (Some x)
      obtain t rest where x: "x = (t, rest)" by (cases x) auto
      have m: "match_int (c # cs) = Some (t, rest)" using Some x by simp
      from less.prems Cons m have "tok = t \<or> tok \<in> set (findall_int rest)" by simp
      then show ?thesis
      proof
        assume "tok = t"
        then show ?thesis using match_int_parses [OF m] by simp
      next
        assume "tok \<in> set (findall_int rest)"
        moreover have "length rest < length s"
          using match_int_shorter [OF m] Cons by simp
        ultimately show ?thesis by (rule less.hyps [rotated])
      qed
    qed
  qed
qed

lemma match_dice_groups:
  assumes "match_dice s = Some ((c_str, sides_str), rest)"
  shows "\<exists>sg r1 r3. (sg = [] \<or> (\<exists>c. sg = [c] \<and> is_sign c))
           \<and> c_str = sg @ takeWhile is_digit r1
           \<and> sides_str = takeWhile is_digit r3 \<and> takeWhile is_digit r3 \<noteq> []"
proof (cases s)
  case Nil
  with assms show ?thesis by (simp add: match_dice_def)
next
  case (Cons c r)
  show ?thesis
  proof (cases "is_sign c")
    case True
    with assms Cons obtain r3 where
      "c_str = [c] @ takeWhile is_digit r" and "sides_str = takeWhile is_digit r3"
      and "takeWhile is_digit r3 \<noteq> []"
      by (auto simp: match_dice_def Let_def split: list.splits if_splits)
    with True show ?thesis by blast
  next
    case False
    with assms Cons obtain r3 where
      "c_str = [] @ takeWhile is_digit s" and "sides_str = takeWhile is_digit r3"
      and "takeWhile is_digit r3 \<noteq> []"
      by (auto simp: match_dice_def Let_def split: list.splits if_splits)
    then show ?thesis by blast
  qed
qed

lemma match_dice_parses:
  assumes "match_dice s = Some ((c_str, sides_str), rest)"
  shows "py_int sides_str \<noteq> None
         \<and> (c_str = [] \<or> c_str = ''+'' \<or> c_str = ''-'' \<or> py_int c_str \<noteq> None)"
proof -
  from match_dice_groups [OF assms] obtain sg r1 r3 where
    sg: "sg = [] \<or> (\<exists>c. sg = [c] \<and> is_sign c)"
    and c: "c_str = sg @ takeWhile is_digit r1" and sd: "sides_str = takeWhile is_digit r3"
    and ne: "takeWhile is_digit r3 \<noteq> []"
    by blast
  have "py_int ([] @ sides_str) \<noteq> None"
    by (rule signed_digits_parse) (simp_all add: sd ne takeWhile_digits)
  then have a: "py_int sides_str \<noteq> None" by simp
  have b: "c_str = [] \<or> c_str = ''+'' \<or> c_str = ''-'' \<or> py_int c_str \<noteq> None"
  proof (cases "takeWhile is_digit r1 = []")
    case True
    with c sg show ?thesis by (auto simp: is_sign_def)
  next
    case False
    have "py_int (sg @ takeWhile is_digit r1) \<noteq> None"
      using sg False takeWhile_digits by (rule signed_digits_parse)
    with c show ?thesis by simp
  qed
  show ?thesis using a b by simp
qed

lemma findall_dice_parses:
  "(c_str, sides_str) \<in> set (findall_dice s) \<Longrightarrow>
     py_int sides_str \<noteq> None
     \<and> (c_str = [] \<or> c_str = ''+'' \<or> c_str = ''-'' \<or> py_int c_str \<noteq> None)"
proof (induction "length s" arbitrary: s rule: less_induct)
  case less
  show ?case
  proof (cases s)
    case Nil
    with less.prems show ?thesis by simp
  next
    case (Cons c cs)
    show ?thesis
    proof (cases "match_dice (c # cs)")
      case None
      with less.prems Cons have "(c_str, sides_str) \<in> set (findall_dice cs)" by simp
      moreover have "length cs < length s" using Cons by simp
      ultimately show ?thesis by (rule less.hyps [rotated])
    next
      case (Some x)
      obtain a b rest where x: "x = ((a, b), rest)" by (metis surj_pair)
      have m: "match_dice (c # cs) = Some ((a, b), rest)" using Some x by simp
      from less.prems Cons m have
        "(c_str, sides_str) = (a, b) \<or> (c_str, sides_str) \<in> set (findall_dice rest)"
        by simp
      then show ?thesis
      proof
        assume "(c_str, sides_str) = (a, b)"
        then show ?thesis using match_dice_parses [OF m] by simp
      next
        assume "(c_str, sides_str) \<in> set (findall_dice rest)"
        moreover have "length rest < length s"
          using match_dice_shorter [OF m] Cons by simp
        ultimately show ?thesis by (rule less.hyps [rotated])
      qed
    qed
  qed
qed

subsection \<open>Hit probabilities\<close>

lemma classify_spec: "classify ac ab r = (spec_hit ac ab r, spec_crit r)"
  by (simp add: classify_def spec_hit_def spec_crit_def)

lemma count_filter_map:
  assumes "distinct xs"
  shows "py_sum (map (\<lambda>_. 1::int) (filter P (map f xs))) = int (card {w \<in> set xs. P (f w)})"
proof -
  have "length (filter P (map f xs)) = length (filter (P \<circ> f) xs)"
    by (simp add: filter_map)
  also have "\<dots> = card ({w. (P \<circ> f) w} \<inter> set xs)"
    using assms by (rule distinct_length_filter)
  also have "{w. (P \<circ> f) w} \<inter> set xs = {w \<in> set xs. P (f w)}"
    by auto
  finally show ?thesis by (simp add: py_sum_ones)
qed

lemma card_hit_split:
  assumes "finite A"
  shows "card {w \<in> A. spec_hit ac ab (f w) \<and> \<not> spec_crit (f w)} + card {w \<in> A. spec_crit (f w)}
         = card {w \<in> A. spec_hit ac ab (f w)}"
proof -
  have "{w \<in> A. spec_hit ac ab (f w)} =
        {w \<in> A. spec_hit ac ab (f w) \<and> \<not> spec_crit (f w)} \<union> {w \<in> A. spec_crit (f w)}"
    by (auto simp: spec_hit_def spec_crit_def)
  moreover have "{w \<in> A. spec_hit ac ab (f w) \<and> \<not> spec_crit (f w)} \<inter> {w \<in> A. spec_crit (f w)} = {}"
    by auto
  ultimately show ?thesis
    using assms by (simp add: card_Un_disjoint)
qed

lemma enumerate_list:
  assumes d: "distinct xs" and n: "length xs = n"
  shows "(let hits = map (\<lambda>w. classify ac ab (f w)) xs;
              p_crit = of_int (py_sum (map (\<lambda>_. 1) (filter (\<lambda>(is_hit, is_crit). is_crit) hits))) / of_nat n;
              p_noncrit = of_int (py_sum (map (\<lambda>_. 1)
                          (filter (\<lambda>(is_hit, is_crit). is_hit \<and> \<not> is_crit) hits))) / of_nat n
          in (p_noncrit, p_crit, p_noncrit + p_crit)) = spec_enumerate ac ab (set xs) f"
proof -
  have c: "card (set xs) = n" using d n by (simp add: distinct_card)
  have 1: "py_sum (map (\<lambda>_. 1::int) (filter (\<lambda>(is_hit, is_crit). is_crit) (map (\<lambda>w. classify ac ab (f w)) xs)))
        = int (card {w \<in> set xs. spec_crit (f w)})"
    using count_filter_map [OF d, of "\<lambda>(is_hit, is_crit). is_crit" "\<lambda>w. classify ac ab (f w)"]
    by (simp add: classify_spec)
  have 2: "py_sum (map (\<lambda>_. 1::int) (filter (\<lambda>(is_hit, is_crit). is_hit \<and> \<not> is_crit) (map (\<lambda>w. classify ac ab (f w)) xs)))
        = int (card {w \<in> set xs. spec_hit ac ab (f w) \<and> \<not> spec_crit (f w)})"
    using count_filter_map [OF d, of "\<lambda>(is_hit, is_crit). is_hit \<and> \<not> is_crit" "\<lambda>w. classify ac ab (f w)"]
    by (simp add: classify_spec)
  have 3: "(of_nat (card {w \<in> set xs. spec_hit ac ab (f w) \<and> \<not> spec_crit (f w)}) :: rat) / of_nat n
         + of_nat (card {w \<in> set xs. spec_crit (f w)}) / of_nat n
         = of_nat (card {w \<in> set xs. spec_hit ac ab (f w)}) / of_nat n"
    using card_hit_split [of "set xs" ac ab f, symmetric]
    by (simp add: add_divide_distrib)
  show ?thesis
    unfolding Let_def 1 2 spec_enumerate_def c using 3 by simp
qed

lemma pairs_list:
  "concat (map (\<lambda>r1. map (\<lambda>r2. classify ac ab (g r1 r2)) ys) xs)
   = map (\<lambda>w. classify ac ab (case w of (r1, r2) \<Rightarrow> g r1 r2)) (List.product xs ys)"
  by (induction xs) simp_all

text \<open>
  C1. For every AC and attack bonus, \<open>hit_probs\<close> returns the shares of a uniform
  enumeration: in normal mode of the 20 faces, in adv and dis mode of the 400 ordered
  pairs of faces with the higher (adv) or the lower (dis) face as the effective roll,
  classified so that a natural 1 misses, a natural 20 hits and is a crit, and any other
  face hits iff face + attack bonus is at least the AC. For AC 15 and attack bonus 5 in
  normal mode the result is (1/2, 1/20, 11/20).
\<close>

theorem hit_probs_enumeration:
  "hit_probs ac bonus ''normal'' = spec_enumerate ac bonus {1..20} (\<lambda>r. r)
   \<and> hit_probs ac bonus ''adv''
       = spec_enumerate ac bonus ({1..20} \<times> {1..20}) (\<lambda>(r1, r2). max r1 r2)
   \<and> hit_probs ac bonus ''dis''
       = spec_enumerate ac bonus ({1..20} \<times> {1..20}) (\<lambda>(r1, r2). min r1 r2)
   \<and> card {1..20::int} = 20 \<and> card ({1..20::int} \<times> {1..20::int}) = 400
   \<and> hit_probs 15 5 ''normal'' = (1 / 2, 1 / 20, 11 / 20)"
proof -
  have n: "hit_probs ac bonus ''normal'' = spec_enumerate ac bonus {1..20} (\<lambda>r. r)"
    using enumerate_list [of "[1..20]" 20 ac bonus "\<lambda>r. r"]
    by (simp add: hit_probs_def)
  have dp: "distinct (List.product [1..20::int] [1..20::int])"
    by (simp add: distinct_product)
  have lp: "length (List.product [1..20::int] [1..20::int]) = 400"
    by simp
  have a: "hit_probs ac bonus ''adv''
       = spec_enumerate ac bonus ({1..20} \<times> {1..20}) (\<lambda>(r1, r2). max r1 r2)"
    using enumerate_list [OF dp lp, of ac bonus "\<lambda>(r1, r2). max r1 r2"]
    by (simp add: hit_probs_def pairs_list)
  have d: "hit_probs ac bonus ''dis''
       = spec_enumerate ac bonus ({1..20} \<times> {1..20}) (\<lambda>(r1, r2). min r1 r2)"
    using enumerate_list [OF dp lp, of ac bonus "\<lambda>(r1, r2). min r1 r2"]
    by (simp add: hit_probs_def pairs_list)
  have e: "hit_probs 15 5 ''normal'' = (1 / 2, 1 / 20, 11 / 20)"
    by code_simp
  show ?thesis using n a d e by simp
qed

theorem hit_probs_enumeration_witness:
  "hit_probs 18 7 ''adv'' = spec_enumerate 18 7 ({1..20} \<times> {1..20}) (\<lambda>(r1, r2). max r1 r2)
   \<and> hit_probs 18 7 ''adv'' = (261 / 400, 39 / 400, 3 / 4)"
proof -
  have "hit_probs 18 7 ''adv'' = (261 / 400, 39 / 400, 3 / 4)"
    by code_simp
  then show ?thesis
    using hit_probs_enumeration [of 18 7] by simp
qed

subsection \<open>Crunchy-crit average\<close>



subsection \<open>Recharge probability\<close>

text \<open>
  C9. \<open>parse_recharge\<close> maps a single face \<open>k\<close> in \<open>[2, 6]\<close> to \<open>(7 - k) / 6\<close>; a
  range \<open>lo-hi\<close> (the text before the first dash and the text behind it both read as
  integers, \<open>lo \<le> hi\<close>) to \<open>(hi - lo + 1) / 6\<close> with both bounds clamped into
  \<open>[1, 6]\<close>; and a text that is empty or does not read as an integer, or a range one
  of whose bounds does not, to \<open>0\<close>. \<^verbatim>\<open>5-6\<close> gives 2/6 and \<^verbatim>\<open>6\<close> gives 1/6.
  A text reads as an integer when \<open>py_int\<close>, the model of \<^verbatim>\<open>int()\<close>, accepts it.
\<close>

theorem parse_recharge_cases:
  "(CHR ''-'' \<notin> set (py_strip text) \<and> py_int (py_strip text) = Some k \<and> 2 \<le> k \<and> k \<le> 6
      \<longrightarrow> parse_recharge text = of_int (7 - k) / 6)
   \<and> (CHR ''-'' \<in> set (py_strip text) \<and> split_dash (py_strip text) = (lo_s, hi_s)
        \<and> py_int lo_s = Some lo \<and> py_int hi_s = Some hi \<and> lo \<le> hi
      \<longrightarrow> parse_recharge text = of_int (max 1 (min 6 hi) - max 1 (min 6 lo) + 1) / 6)
   \<and> (py_strip text = [] \<longrightarrow> parse_recharge text = 0)
   \<and> (CHR ''-'' \<notin> set (py_strip text) \<and> py_int (py_strip text) = None
      \<longrightarrow> parse_recharge text = 0)
   \<and> (CHR ''-'' \<in> set (py_strip text)
        \<and> (py_int (fst (split_dash (py_strip text))) = None
           \<or> py_int (snd (split_dash (py_strip text))) = None)
      \<longrightarrow> parse_recharge text = 0)
   \<and> parse_recharge ''5-6'' = 2 / 6
   \<and> parse_recharge ''6'' = 1 / 6"
proof (intro conjI impI)
  assume "CHR ''-'' \<notin> set (py_strip text) \<and> py_int (py_strip text) = Some k \<and> 2 \<le> k \<and> k \<le> 6"
  then have d: "CHR ''-'' \<notin> set (py_strip text)" and p: "py_int (py_strip text) = Some k"
    and k: "2 \<le> k" "k \<le> 6"
    by simp_all
  have ne: "py_strip text \<noteq> []"
  proof
    assume e: "py_strip text = []"
    have "py_int [] = None" by (simp add: py_int_def int_strip_def)
    with p e show False by simp
  qed
  from k have "max 2 (min 6 k) = k" by simp
  then show "parse_recharge text = of_int (7 - k) / 6"
    using d p ne by (simp add: parse_recharge_def Let_def)
next
  assume "CHR ''-'' \<in> set (py_strip text) \<and> split_dash (py_strip text) = (lo_s, hi_s)
        \<and> py_int lo_s = Some lo \<and> py_int hi_s = Some hi \<and> lo \<le> hi"
  then have d: "CHR ''-'' \<in> set (py_strip text)"
    and s: "split_dash (py_strip text) = (lo_s, hi_s)"
    and p: "py_int lo_s = Some lo" "py_int hi_s = Some hi" and o: "lo \<le> hi"
    by simp_all
  from d have ne: "py_strip text \<noteq> []" by auto
  from o have "min lo hi = lo" "max lo hi = hi" by simp_all
  then show "parse_recharge text = of_int (max 1 (min 6 hi) - max 1 (min 6 lo) + 1) / 6"
    using d s p ne by (simp add: parse_recharge_def Let_def)
next
  assume "py_strip text = []"
  then show "parse_recharge text = 0"
    by (simp add: parse_recharge_def)
next
  assume "CHR ''-'' \<notin> set (py_strip text) \<and> py_int (py_strip text) = None"
  then show "parse_recharge text = 0"
    by (simp add: parse_recharge_def Let_def)
next
  assume a: "CHR ''-'' \<in> set (py_strip text)
        \<and> (py_int (fst (split_dash (py_strip text))) = None
           \<or> py_int (snd (split_dash (py_strip text))) = None)"
  then show "parse_recharge text = 0"
    by (cases "split_dash (py_strip text)")
       (auto simp: parse_recharge_def Let_def split: option.splits)
next
  show "parse_recharge ''5-6'' = 2 / 6" by code_simp
next
  show "parse_recharge ''6'' = 1 / 6" by code_simp
qed

theorem parse_recharge_cases_witness:
  "parse_recharge '' 3 '' = 4 / 6
   \<and> parse_recharge ''2 - 9'' = 5 / 6
   \<and> parse_recharge ''  '' = 0
   \<and> parse_recharge ''5+'' = 0
   \<and> parse_recharge ''4-'' = 0
   \<and> py_int [CHR 0x1C, CHR ''3''] = None
   \<and> parse_recharge [CHR ''1'', CHR ''-'', CHR 0x1C, CHR ''3''] = 0"
proof -
  have h1: "CHR ''-'' \<notin> set (py_strip '' 3 '') \<and> py_int (py_strip '' 3 '') = Some 3
            \<and> (2::int) \<le> 3 \<and> (3::int) \<le> 6"
    by code_simp
  have h2: "CHR ''-'' \<in> set (py_strip ''2 - 9'') \<and> split_dash (py_strip ''2 - 9'') = (''2 '', '' 9'')
            \<and> py_int ''2 '' = Some 2 \<and> py_int '' 9'' = Some 9 \<and> (2::int) \<le> 9"
    by code_simp
  have h3: "py_strip ''  '' = []"
    by code_simp
  have h4: "CHR ''-'' \<notin> set (py_strip ''5+'') \<and> py_int (py_strip ''5+'') = None"
    by code_simp
  have h5: "CHR ''-'' \<in> set (py_strip ''4-'')
            \<and> (py_int (fst (split_dash (py_strip ''4-''))) = None
               \<or> py_int (snd (split_dash (py_strip ''4-''))) = None)"
    by code_simp
  have h6: "py_int [CHR 0x1C, CHR ''3''] = None"
    by code_simp
  have h7: "CHR ''-'' \<in> set (py_strip [CHR ''1'', CHR ''-'', CHR 0x1C, CHR ''3''])
            \<and> (py_int (fst (split_dash (py_strip [CHR ''1'', CHR ''-'', CHR 0x1C, CHR ''3'']))) = None
               \<or> py_int (snd (split_dash (py_strip [CHR ''1'', CHR ''-'', CHR 0x1C, CHR ''3'']))) = None)"
    by code_simp
  have c1: "parse_recharge '' 3 '' = 4 / 6"
    using parse_recharge_cases [of "'' 3 ''" 3] h1 by simp
  have c2: "parse_recharge ''2 - 9'' = 5 / 6"
    using parse_recharge_cases [of "''2 - 9''" _ "''2 ''" "'' 9''" 2 9] h2 by simp
  have c3: "parse_recharge ''  '' = 0"
    using parse_recharge_cases [of "''  ''"] h3 by simp
  have c4: "parse_recharge ''5+'' = 0"
    using parse_recharge_cases [of "''5+''"] h4 by simp
  have c5: "parse_recharge ''4-'' = 0"
    using parse_recharge_cases [of "''4-''"] h5 by simp
  have c7: "parse_recharge [CHR ''1'', CHR ''-'', CHR 0x1C, CHR ''3''] = 0"
    using parse_recharge_cases [of "[CHR ''1'', CHR ''-'', CHR 0x1C, CHR ''3'']"] h7 by blast
  show ?thesis using c1 c2 c3 c4 c5 h6 c7 by simp
qed

subsection \<open>Dice terms with zero sides\<close>

lemma roll_damage_terms_skips:
  "roll_damage_terms (filter (\<lambda>(c, s). s > 0) dice) sz total_roll g
   = roll_damage_terms dice sz total_roll g"
  by (induction dice arbitrary: total_roll g) (auto simp: Let_def split: prod.splits)

lemma roll_crit_terms_skips:
  "roll_crit_terms (filter (\<lambda>(c, s). s > 0) dice) tot g = roll_crit_terms dice tot g"
  by (induction dice arbitrary: tot g) (auto simp: Let_def split: prod.splits)

text \<open>
  C3, evaluated at the expression \<^verbatim>\<open>2d0\<close>. The parser keeps the term \<open>(2, 0)\<close>. The
  two samplers skip it and return zero, the value of the empty expression; the two
  averages count it as \<open>2 \<cdot> (0 + 1) / 2 = 1\<close>.
\<close>

theorem zero_sided_dice_in_averages:
  "parse_damage_expression ''2d0'' = (1, [(2, 0)], 0)
   \<and> average_damage ''2d0'' = 1
   \<and> average_damage [] = 0
   \<and> average_crunchy_crit_damage ''2d0'' = 1
   \<and> average_crunchy_crit_damage [] = 0
   \<and> fst (roll_damage ''2d0'' n g) = replicate n 0
   \<and> fst (roll_damage_crunchy_crit ''2d0'' g) = 0"
proof -
  have p: "parse_damage_expression ''2d0'' = (1, [(2, 0)], 0)" by code_simp
  have a: "average_damage ''2d0'' = 1" by code_simp
  have b: "average_damage [] = 0" by code_simp
  have c: "average_crunchy_crit_damage ''2d0'' = 1" by code_simp
  have d: "average_crunchy_crit_damage [] = 0" by code_simp
  have e: "fst (roll_damage ''2d0'' n g) = replicate n 0"
    by (simp add: roll_damage_def p map_replicate_const)
  have f: "fst (roll_damage_crunchy_crit ''2d0'' g) = 0"
    by (simp add: roll_damage_crunchy_crit_def p)
  show ?thesis using p a b c d e f by simp
qed

subsection \<open>Saving throws in the single-target simulator\<close>

lemma mc_save_fail_count:
  assumes "2 \<le> dc_val - bonus" and "dc_val - bonus \<le> 20"
  shows "rat_of_nat (length (filter (\<lambda>r. \<not> mc_save_success r bonus dc_val) [1..20])) / 20
         = p_save_fail dc_val bonus"
proof -
  have "{r. \<not> mc_save_success r bonus dc_val} \<inter> set [1..20] = {1..dc_val - bonus - 1}"
    using assms by (auto simp: mc_save_success_def)
  then have "length (filter (\<lambda>r. \<not> mc_save_success r bonus dc_val) [1..20])
         = card {1..dc_val - bonus - 1}"
    by (simp add: distinct_length_filter)
  also have "\<dots> = nat (dc_val - bonus - 1)"
    by simp
  finally show ?thesis
    using assms by (simp add: p_save_fail_def Let_def)
qed

text \<open>
  C4, evaluated at DC 30 against a save bonus of 0 and at DC 5 against a save bonus of
  10. The simulator compares roll + bonus with the DC and nothing else: at DC 30 all
  twenty faces fail, the natural 20 included, where \<open>p_save_fail\<close> is 19/20; at DC 5
  against +10 no face fails, the natural 1 included, where \<open>p_save_fail\<close> is 1/20. A
  use whose d20 shows 20 against DC 30 deals the full damage of 10.
\<close>

theorem mc_save_ignores_natural_rolls:
  "\<not> mc_save_success 20 0 30
   \<and> length (filter (\<lambda>r. \<not> mc_save_success r 0 30) [1..20]) = 20
   \<and> p_save_fail 30 0 = 19 / 20
   \<and> mc_save_success 1 10 5
   \<and> length (filter (\<lambda>r. \<not> mc_save_success r 10 5) [1..20]) = 0
   \<and> p_save_fail 5 10 = 1 / 20
   \<and> fst (randint 1 20 (Rng (\<lambda>_. 19) 0)) = 20
   \<and> fst (mc_save_uses
        \<lparr> name = ''Breath'', kind = ''save'', attack_bonus = 0, dc = 30, save_stat = ''DEX'',
          damage_expr = ''10'', uses_per_round = 1, is_melee = False, enabled = True \<rparr>
        0 1 (Rng (\<lambda>_. 19) 0)) = 10"
  by code_simp

subsection \<open>The single-target simulator returns one non-negative total per trial\<close>

lemma mc_round_totals:
  assumes "length (fst st) = mc_trials opts" and "\<forall>x \<in> set (fst st). 0 \<le> x"
  shows "length (fst (mc_round pc attacks opts thp_avg st)) = mc_trials opts
         \<and> (\<forall>x \<in> set (fst (mc_round pc attacks opts thp_avg st)). 0 \<le> x)"
proof -
  obtain total_damage rider_remaining g where st: "st = (total_damage, rider_remaining, g)"
    by (cases st) auto
  from assms st have len: "length total_damage = mc_trials opts"
    and nn: "\<forall>x \<in> set total_damage. 0 \<le> x"
    by simp_all
  have "\<exists>round_damage :: rat list. fst (mc_round pc attacks opts thp_avg st)
       = map (\<lambda>i. total_damage ! i + max 0 (round_damage ! i - thp_avg)) [0..<mc_trials opts]"
    by (simp add: mc_round_def st Let_def split: prod.splits) blast
  then obtain round_damage :: "rat list" where
    "fst (mc_round pc attacks opts thp_avg st)
       = map (\<lambda>i. total_damage ! i + max 0 (round_damage ! i - thp_avg)) [0..<mc_trials opts]"
    by blast
  moreover have "\<And>i. i < mc_trials opts \<Longrightarrow> 0 \<le> total_damage ! i"
    using len nn by simp
  ultimately show ?thesis
    by (auto simp: add_nonneg_nonneg)
qed

lemma mc_rounds_totals:
  assumes "length (fst st) = mc_trials opts" and "\<forall>x \<in> set (fst st). 0 \<le> x"
  shows "length (fst (foldl (\<lambda>st _. mc_round pc attacks opts thp_avg st) st rs)) = mc_trials opts
         \<and> (\<forall>x \<in> set (fst (foldl (\<lambda>st _. mc_round pc attacks opts thp_avg st) st rs)). 0 \<le> x)"
  using assms
proof (induction rs arbitrary: st)
  case Nil
  then show ?case by simp
next
  case (Cons r rs)
  have "length (fst (mc_round pc attacks opts thp_avg st)) = mc_trials opts
         \<and> (\<forall>x \<in> set (fst (mc_round pc attacks opts thp_avg st)). 0 \<le> x)"
    using Cons.prems by (rule mc_round_totals)
  then show ?case
    using Cons.IH [of "mc_round pc attacks opts thp_avg st"] by simp
qed

text \<open>
  C5. For every party member, attack list, configuration and sequence of random draws,
  the single-target simulator returns exactly \<open>mc_trials\<close> totals, each of them
  non-negative.
\<close>

theorem run_mc_sim_output:
  "length (fst (run_mc_sim pc attacks opts g)) = mc_trials opts
   \<and> (\<forall>x \<in> set (fst (run_mc_sim pc attacks opts g)). 0 \<le> x)"
proof -
  let ?st0 = "(replicate (mc_trials opts) (0::rat), replicate (mc_trials opts) (0::int), g)"
  let ?end = "foldl (\<lambda>st _. mc_round pc attacks opts (average_damage (thp_expr opts)) st)
                ?st0 [0..<mc_rounds opts]"
  have "length (fst ?st0) = mc_trials opts" and "\<forall>x \<in> set (fst ?st0). 0 \<le> x"
    by simp_all
  then have "length (fst ?end) = mc_trials opts \<and> (\<forall>x \<in> set (fst ?end). 0 \<le> x)"
    by (rule mc_rounds_totals)
  moreover have "fst (run_mc_sim pc attacks opts g) = fst ?end"
    by (simp add: run_mc_sim_def Let_def split: prod.splits)
  ultimately show ?thesis by simp
qed

theorem run_mc_sim_output_witness:
  "mc_trials (DEFAULT_OPTIONS\<lparr>mc_trials := 2, mc_rounds := 1\<rparr>) = 2
   \<and> length (fst (run_mc_sim (hd default_party) (take 1 default_attacks)
        (DEFAULT_OPTIONS\<lparr>mc_trials := 2, mc_rounds := 1\<rparr>) (Rng (\<lambda>i. 7 * i + 2) 0))) = 2
   \<and> fst (run_mc_sim (hd default_party) (take 1 default_attacks)
        (DEFAULT_OPTIONS\<lparr>mc_trials := 2, mc_rounds := 1\<rparr>) (Rng (\<lambda>i. 7 * i + 2) 0))
       = [13 / 2, 0]"
proof -
  have v: "fst (run_mc_sim (hd default_party) (take 1 default_attacks)
        (DEFAULT_OPTIONS\<lparr>mc_trials := 2, mc_rounds := 1\<rparr>) (Rng (\<lambda>i. 7 * i + 2) 0))
       = [13 / 2, 0]"
    by code_simp
  have t: "mc_trials (DEFAULT_OPTIONS\<lparr>mc_trials := 2, mc_rounds := 1\<rparr>) = 2"
    by simp
  show ?thesis
    using run_mc_sim_output [of "hd default_party" "take 1 default_attacks"
        "DEFAULT_OPTIONS\<lparr>mc_trials := 2, mc_rounds := 1\<rparr>" "Rng (\<lambda>i. 7 * i + 2) 0"] v t
    by simp
qed

subsection \<open>Metrics of the encounter simulator\<close>

lemma enc_inv_nth:
  assumes "enc_inv cx R st" and "k < c_trials cx" and "ttk st ! k = Some r"
  shows "1 \<le> r \<and> r \<le> R"
proof -
  from assms have "k < length (ttk st)" by (simp add: enc_inv_def)
  moreover from assms(1) have
    "\<forall>n < length (ttk st). case ttk st ! n of None \<Rightarrow> True | Some r \<Rightarrow> 1 \<le> r \<and> r \<le> R"
    by (simp add: enc_inv_def list_all_length)
  ultimately have "case ttk st ! k of None \<Rightarrow> True | Some r \<Rightarrow> 1 \<le> r \<and> r \<le> R"
    by blast
  with assms(3) show ?thesis by simp
qed

lemma party_phase_inv:
  assumes "enc_inv cx R st" and "1 \<le> rnd" and "rnd \<le> R"
  shows "enc_inv cx R (party_phase cx msk rnd st)"
proof -
  let ?st1 = "party_phase cx msk rnd st"
  have len: "length (ttk ?st1) = c_trials cx"
    by (simp add: party_phase_def Let_def split: prod.splits)
  have f: "tpk_flags ?st1 = tpk_flags st"
    by (simp add: party_phase_def Let_def split: prod.splits)
  have el: "\<And>k. k < c_trials cx \<Longrightarrow> ttk ?st1 ! k = Some rnd \<or> ttk ?st1 ! k = ttk st ! k"
    by (simp add: party_phase_def Let_def split: prod.splits)
  have "\<forall>k < length (ttk ?st1). case ttk ?st1 ! k of None \<Rightarrow> True | Some r \<Rightarrow> 1 \<le> r \<and> r \<le> R"
  proof (intro allI impI)
    fix k
    assume "k < length (ttk ?st1)"
    with len have k: "k < c_trials cx" by simp
    from el [OF k] show "case ttk ?st1 ! k of None \<Rightarrow> True | Some r \<Rightarrow> 1 \<le> r \<and> r \<le> R"
    proof
      assume "ttk ?st1 ! k = Some rnd"
      with assms(2,3) show ?thesis by simp
    next
      assume "ttk ?st1 ! k = ttk st ! k"
      then show ?thesis
        using enc_inv_nth [OF assms(1) k] by (cases "ttk st ! k") simp_all
    qed
  qed
  then have "list_all (\<lambda>x. case x of None \<Rightarrow> True | Some r \<Rightarrow> 1 \<le> r \<and> r \<le> R) (ttk ?st1)"
    by (simp add: list_all_length)
  then show ?thesis
    using assms(1) len f by (simp add: enc_inv_def)
qed

lemma boss_phase_ttk:
  assumes "boss_phase cx rnd st = Inr st1"
  shows "ttk st1 = ttk st \<and> length (tpk_flags st1) = c_trials cx"
  using assms
  by (auto simp: boss_phase_def Let_def split: sum.splits prod.splits if_splits)

lemma boss_phase_inv:
  assumes "enc_inv cx R st" and "boss_phase cx rnd st = Inr st1"
  shows "enc_inv cx R st1"
  using assms boss_phase_ttk [OF assms(2)] by (simp add: enc_inv_def)

lemma enc_round_inv:
  assumes i: "enc_inv cx R st" and r: "1 \<le> rnd" "rnd \<le> R" and e: "enc_round cx rnd st = Inr st3"
  shows "enc_inv cx R st3"
proof -
  obtain flags g1 where b: "boss_goes_first cx (c_trials cx) (gen st) = (flags, g1)"
    by (cases "boss_goes_first cx (c_trials cx) (gen st)") auto
  let ?m1 = "map (\<lambda>t. ongoing_of cx st ! t \<and> \<not> flags ! t) [0..<c_trials cx]"
  let ?st1 = "if np_any ?m1 then party_phase cx ?m1 rnd (st\<lparr>gen := g1\<rparr>) else st\<lparr>gen := g1\<rparr>"
  have i0: "enc_inv cx R (st\<lparr>gen := g1\<rparr>)"
    using i by (simp add: enc_inv_def)
  have i1: "enc_inv cx R ?st1"
    using i0 party_phase_inv [OF i0 r] by simp
  obtain st2 where s2: "(if np_any (ongoing_of cx ?st1) then boss_phase cx rnd ?st1 else Inr ?st1) = Inr st2"
    using e b by (auto simp: enc_round_def Let_def split: sum.splits)
  have i2: "enc_inv cx R st2"
  proof (cases "np_any (ongoing_of cx ?st1)")
    case True
    with s2 have "boss_phase cx rnd ?st1 = Inr st2" by simp
    with i1 show ?thesis by (rule boss_phase_inv)
  next
    case False
    with s2 have "st2 = ?st1" by simp
    with i1 show ?thesis by simp
  qed
  let ?m2 = "map (\<lambda>t. ongoing_of cx st2 ! t \<and> flags ! t) [0..<c_trials cx]"
  have "st3 = (if np_any ?m2 then party_phase cx ?m2 rnd st2 else st2)"
    using e b s2 by (simp add: enc_round_def Let_def)
  then show ?thesis
    using i2 party_phase_inv [OF i2 r] by simp
qed

lemma enc_rounds_inv:
  assumes "enc_inv cx R st" and "\<forall>rnd \<in> set rs. 1 \<le> rnd \<and> rnd \<le> R"
    and "enc_rounds cx rs st = Inr st1"
  shows "enc_inv cx R st1"
  using assms
proof (induction rs arbitrary: st)
  case Nil
  then show ?case by simp
next
  case (Cons rnd rest)
  show ?case
  proof (cases "np_any (ongoing_of cx st)")
    case False
    with Cons.prems show ?thesis by simp
  next
    case True
    with Cons.prems(3) obtain st2 where
      a: "enc_round cx rnd st = Inr st2" and b: "enc_rounds cx rest st2 = Inr st1"
      by (auto split: sum.splits)
    have "enc_inv cx R st2"
      using Cons.prems(1,2) a enc_round_inv [of cx R st rnd st2] by simp
    then show ?thesis
      using Cons.IH [of st2] Cons.prems(2) b by simp
  qed
qed

lemma enc_initial_inv: "enc_inv (enc_context app) R (enc_initial app g)"
  by (simp add: enc_inv_def enc_initial_def enc_context_def Let_def list_all_iff)

lemma count_true_le: "count_true bs \<le> length bs"
  by (simp add: count_true_def)

lemma count_true_mono:
  assumes "\<And>k. k < n \<Longrightarrow> P k \<Longrightarrow> Q k"
  shows "count_true (map P [0..<n]) \<le> count_true (map Q [0..<n])"
proof -
  have "{x. P x} \<inter> set [0..<n] \<subseteq> {x. Q x} \<inter> set [0..<n]"
    using assms by auto
  then have "card ({x. P x} \<inter> set [0..<n]) \<le> card ({x. Q x} \<inter> set [0..<n])"
    by (intro card_mono) simp_all
  then have "length (filter P [0..<n]) \<le> length (filter Q [0..<n])"
    by (simp add: distinct_length_filter)
  then show ?thesis
    by (simp add: count_true_def filter_map comp_def)
qed

lemma count_true_all:
  assumes "\<And>k. k < n \<Longrightarrow> P k"
  shows "count_true (map P [0..<n]) = n"
proof -
  have "filter P [0..<n] = [0..<n]"
    using assms by (simp add: filter_id_conv)
  then show ?thesis
    by (simp add: count_true_def filter_map comp_def)
qed

lemma enc_metrics_props:
  assumes i: "enc_inv cx (c_max_rounds cx) st" and n: "0 < c_trials cx"
  shows "m_times (enc_metrics cx st) = [0..<Suc (c_max_rounds cx)]
    \<and> length (m_survival_curve (enc_metrics cx st)) = Suc (c_max_rounds cx)
    \<and> (\<forall>a b. a \<le> b \<and> b \<le> c_max_rounds cx \<longrightarrow>
          (\<exists>sa sb. m_survival_curve (enc_metrics cx st) ! a = Some sa
                 \<and> m_survival_curve (enc_metrics cx st) ! b = Some sb \<and> sb \<le> sa))
    \<and> m_survival_curve (enc_metrics cx st) ! 0 = Some 1
    \<and> (\<exists>p. m_tpk_prob (enc_metrics cx st) = Some p \<and> 0 \<le> p \<and> p \<le> 1)
    \<and> length (m_ttk (enc_metrics cx st)) = c_trials cx
    \<and> (\<forall>k r. k < c_trials cx \<and> m_ttk (enc_metrics cx st) ! k = Some r
          \<longrightarrow> 1 \<le> r \<and> r \<le> c_max_rounds cx)"
proof -
  let ?n = "c_trials cx"
  let ?above = "\<lambda>t k. case ttk st ! k of None \<Rightarrow> True | Some r \<Rightarrow> t < r"
  let ?s = "\<lambda>t. rat_of_nat (count_true (map (?above t) [0..<?n])) / rat_of_nat ?n"
  have surv: "\<And>t. t \<le> c_max_rounds cx \<Longrightarrow> m_survival_curve (enc_metrics cx st) ! t = Some (?s t)"
  proof -
    fix t
    assume t: "t \<le> c_max_rounds cx"
    have "m_survival_curve (enc_metrics cx st)
        = map (\<lambda>t. np_mean (map (?above t) [0..<?n])) [0..<Suc (c_max_rounds cx)]"
      by (simp add: enc_metrics_def Let_def del: upt_Suc)
    moreover have "t < length [0..<Suc (c_max_rounds cx)]"
      using t by simp
    ultimately have "m_survival_curve (enc_metrics cx st) ! t
        = (\<lambda>t. np_mean (map (?above t) [0..<?n])) ([0..<Suc (c_max_rounds cx)] ! t)"
      by (simp only: nth_map)
    moreover have "[0..<Suc (c_max_rounds cx)] ! t = t"
      using t by (simp del: upt_Suc)
    ultimately have "m_survival_curve (enc_metrics cx st) ! t = np_mean (map (?above t) [0..<?n])"
      by (simp only:)
    then show "m_survival_curve (enc_metrics cx st) ! t = Some (?s t)"
      using n by (simp add: np_mean_def)
  qed
  have mono: "\<And>a b. a \<le> b \<Longrightarrow> ?s b \<le> ?s a"
  proof -
    fix a b :: nat
    assume ab: "a \<le> b"
    have "count_true (map (?above b) [0..<?n]) \<le> count_true (map (?above a) [0..<?n])"
      using ab by (intro count_true_mono) (auto split: option.splits)
    then show "?s b \<le> ?s a"
      using n by (simp add: divide_right_mono)
  qed
  have zero: "?s 0 = 1"
  proof -
    have "count_true (map (?above 0) [0..<?n]) = ?n"
    proof (rule count_true_all)
      fix k
      assume "k < ?n"
      then show "?above 0 k"
        using enc_inv_nth [OF i, of k] by (cases "ttk st ! k") auto
    qed
    then show ?thesis using n by simp
  qed
  have c1: "m_times (enc_metrics cx st) = [0..<Suc (c_max_rounds cx)]"
    by (simp add: enc_metrics_def Let_def del: upt_Suc)
  have c2: "length (m_survival_curve (enc_metrics cx st)) = Suc (c_max_rounds cx)"
    by (simp add: enc_metrics_def Let_def del: upt_Suc)
  have c3: "\<forall>a b. a \<le> b \<and> b \<le> c_max_rounds cx \<longrightarrow>
          (\<exists>sa sb. m_survival_curve (enc_metrics cx st) ! a = Some sa
                 \<and> m_survival_curve (enc_metrics cx st) ! b = Some sb \<and> sb \<le> sa)"
  proof (intro allI impI)
    fix a b
    assume h: "a \<le> b \<and> b \<le> c_max_rounds cx"
    then have "m_survival_curve (enc_metrics cx st) ! a = Some (?s a)"
      and "m_survival_curve (enc_metrics cx st) ! b = Some (?s b)"
      using surv by simp_all
    moreover have "?s b \<le> ?s a" using h mono by simp
    ultimately show "\<exists>sa sb. m_survival_curve (enc_metrics cx st) ! a = Some sa
                 \<and> m_survival_curve (enc_metrics cx st) ! b = Some sb \<and> sb \<le> sa"
      by blast
  qed
  have c4: "m_survival_curve (enc_metrics cx st) ! 0 = Some 1"
    using surv [of 0] zero by simp
  have lf: "length (tpk_flags st) = ?n" using i by (simp add: enc_inv_def)
  have c5: "\<exists>p. m_tpk_prob (enc_metrics cx st) = Some p \<and> 0 \<le> p \<and> p \<le> 1"
  proof -
    have ne: "tpk_flags st \<noteq> []" using lf n by auto
    have "count_true (tpk_flags st) \<le> length (tpk_flags st)" by (rule count_true_le)
    then have "rat_of_nat (count_true (tpk_flags st)) / rat_of_nat (length (tpk_flags st)) \<le> 1"
      using lf n by (simp add: divide_le_eq_1)
    moreover have "0 \<le> rat_of_nat (count_true (tpk_flags st)) / rat_of_nat (length (tpk_flags st))"
      by simp
    ultimately show ?thesis
      using ne by (simp add: enc_metrics_def Let_def np_mean_def)
  qed
  have c6: "length (m_ttk (enc_metrics cx st)) = ?n"
    using i by (simp add: enc_metrics_def Let_def enc_inv_def)
  have c7: "\<forall>k r. k < ?n \<and> m_ttk (enc_metrics cx st) ! k = Some r
          \<longrightarrow> 1 \<le> r \<and> r \<le> c_max_rounds cx"
  proof (intro allI impI)
    fix k r
    assume "k < ?n \<and> m_ttk (enc_metrics cx st) ! k = Some r"
    then have "k < ?n" and "ttk st ! k = Some r"
      by (simp_all add: enc_metrics_def Let_def)
    then show "1 \<le> r \<and> r \<le> c_max_rounds cx"
      using enc_inv_nth [OF i] by blast
  qed
  show ?thesis using c1 c2 c3 c4 c5 c6 c7 by blast
qed

text \<open>
  C6. Whenever the encounter simulator returns metrics for a run of at least one trial,
  the survival curve has one entry for each time \<open>0..enc_max_rounds\<close>, it does not
  increase with time, its entry at time 0 is 1, the wipe probability lies in \<open>[0, 1]\<close>,
  and every finite time to kill is a round number between 1 and \<open>enc_max_rounds\<close>.
  (The boss HP at the start does not matter: a time to kill is never below one round.)
\<close>

theorem encounter_metrics_invariants:
  assumes "run_encounter_mc app g = Inr (Some m, g1)"
    and "0 < enc_trials (app_options app)"
  shows "m_times m = [0..<Suc (enc_max_rounds (app_options app))]
    \<and> length (m_survival_curve m) = Suc (enc_max_rounds (app_options app))
    \<and> (\<forall>a b. a \<le> b \<and> b \<le> enc_max_rounds (app_options app) \<longrightarrow>
          (\<exists>sa sb. m_survival_curve m ! a = Some sa \<and> m_survival_curve m ! b = Some sb \<and> sb \<le> sa))
    \<and> m_survival_curve m ! 0 = Some 1
    \<and> (\<exists>p. m_tpk_prob m = Some p \<and> 0 \<le> p \<and> p \<le> 1)
    \<and> length (m_ttk m) = enc_trials (app_options app)
    \<and> (\<forall>k r. k < enc_trials (app_options app) \<and> m_ttk m ! k = Some r
          \<longrightarrow> 1 \<le> r \<and> r \<le> enc_max_rounds (app_options app))"
proof -
  let ?cx = "enc_context app"
  have mr: "c_max_rounds ?cx = enc_max_rounds (app_options app)"
    and tr: "c_trials ?cx = enc_trials (app_options app)"
    by (simp_all add: enc_context_def Let_def)
  from assms(1) obtain st where
    r: "enc_rounds ?cx [1..<Suc (enc_max_rounds (app_options app))] (enc_initial app g) = Inr st"
    and m: "m = enc_metrics ?cx st"
    by (auto simp: run_encounter_mc_def Let_def split: if_splits sum.splits)
  have "\<forall>rnd \<in> set [1..<Suc (enc_max_rounds (app_options app))].
          1 \<le> rnd \<and> rnd \<le> c_max_rounds ?cx"
    using mr by auto
  with enc_initial_inv [of app "c_max_rounds ?cx" g]
  have "enc_inv ?cx (c_max_rounds ?cx) st"
    using r by (rule enc_rounds_inv)
  moreover have "0 < c_trials ?cx" using assms(2) tr by simp
  ultimately show ?thesis
    using enc_metrics_props [of ?cx st] m mr tr by simp
qed

theorem encounter_metrics_invariants_witness:
  "map_sum id fst (run_encounter_mc small_encounter (Rng (\<lambda>i. (3 * i + 7) mod 10) 0))
     = Inr (Some \<lparr> m_ttk = [Some 1, None], m_tpk_prob = Some 0, m_pcs_down_at_victory = [0],
                   m_times = [0, 1, 2],
                   m_survival_curve = [Some 1, Some (1 / 2), Some (1 / 2)] \<rparr>)
   \<and> 0 < enc_trials (app_options small_encounter)
   \<and> (\<exists>m. map_sum id fst (run_encounter_mc small_encounter (Rng (\<lambda>i. (3 * i + 7) mod 10) 0))
            = Inr (Some m)
          \<and> m_survival_curve m ! 0 = Some 1
          \<and> length (m_survival_curve m) = Suc (enc_max_rounds (app_options small_encounter))
          \<and> length (m_ttk m) = enc_trials (app_options small_encounter)
          \<and> (\<exists>p. m_tpk_prob m = Some p \<and> 0 \<le> p \<and> p \<le> 1))"
proof -
  let ?g = "Rng (\<lambda>i. (3 * i + 7) mod 10) 0"
  let ?m = "\<lparr> m_ttk = [Some 1, None], m_tpk_prob = Some 0, m_pcs_down_at_victory = [0],
              m_times = [0, 1, 2],
              m_survival_curve = [Some 1, Some (1 / 2), Some (1 / 2)] \<rparr>"
  have v: "map_sum id fst (run_encounter_mc small_encounter ?g) = Inr (Some ?m)"
    by code_simp
  have t: "0 < enc_trials (app_options small_encounter)"
    by (simp add: small_encounter_def)
  from v obtain g1 where r: "run_encounter_mc small_encounter ?g = Inr (Some ?m, g1)"
    by (cases "run_encounter_mc small_encounter ?g") auto
  from encounter_metrics_invariants [OF r t]
  have "m_survival_curve ?m ! 0 = Some 1
      \<and> length (m_survival_curve ?m) = Suc (enc_max_rounds (app_options small_encounter))
      \<and> length (m_ttk ?m) = enc_trials (app_options small_encounter)
      \<and> (\<exists>p. m_tpk_prob ?m = Some p \<and> 0 \<le> p \<and> p \<le> 1)"
    by blast
  with v t show ?thesis by blast
qed

subsection \<open>The rider's AC penalty\<close>




subsection \<open>The auto-tuner leaves the options as they were when it cannot bracket\<close>

lemma set_hp_trials_twice:
  "set_hp_trials (set_hp_trials app h t) h1 t1 = set_hp_trials app h1 t1"
  by (simp add: set_hp_trials_def)

lemma set_hp_trials_same:
  "set_hp_trials app (boss_hp (app_options app)) (enc_trials (app_options app)) = app"
  by (simp add: set_hp_trials_def)

lemma simulate_with_hp_app:
  assumes "simulate_with_hp hp trials app g = Inr (r, app1, g1)"
  shows "app1 = set_hp_trials app (max 1 (py_round hp)) trials"
  using assms
  by (auto simp: simulate_with_hp_def Let_def split: sum.splits prod.splits option.splits)

lemma escalate_app:
  assumes "escalate n target quick high med app g = Inr (high1, med1, app1, g1)"
  shows "\<exists>h t. set_hp_trials app1 h t = set_hp_trials app h t"
  using assms
proof (induction n arbitrary: high med app g)
  case 0
  then show ?case by simp
next
  case (Suc n)
  show ?case
  proof (cases "med_lt med target")
    case False
    with Suc.prems show ?thesis by simp
  next
    case True
    show ?thesis
    proof (cases "simulate_with_hp (high * 2) quick app g")
      case (Inl e)
      with Suc.prems True show ?thesis by simp
    next
      case (Inr x)
      obtain med2 tpk2 app2 g2 where x: "x = ((med2, tpk2), app2, g2)" by (metis prod.collapse)
      have s: "simulate_with_hp (high * 2) quick app g = Inr ((med2, tpk2), app2, g2)"
        using Inr x by simp
      have e: "escalate n target quick (high * 2) med2 app2 g2 = Inr (high1, med1, app1, g1)"
        using Suc.prems True s by simp
      from Suc.IH [OF e] obtain h t where "set_hp_trials app1 h t = set_hp_trials app2 h t"
        by blast
      then show ?thesis
        using simulate_with_hp_app [OF s] by (auto simp: set_hp_trials_twice)
    qed
  qed
qed

lemma set_hp_trials_cong:
  assumes "set_hp_trials app1 h t = set_hp_trials app h t"
  shows "set_hp_trials app1 h1 t1 = set_hp_trials app h1 t1"
proof -
  have "set_hp_trials (set_hp_trials app1 h t) h1 t1 = set_hp_trials (set_hp_trials app h t) h1 t1"
    using assms by simp
  then show ?thesis by (simp add: set_hp_trials_twice)
qed

lemma tune_bracket_app:
  assumes "tune_bracket app g = Inr (low, high, med_low, med_high, app1, g1)"
  shows "set_hp_trials app1 h t = set_hp_trials app h t"
proof -
  let ?q = "max 3000 (enc_trials (app_options app) * 2 div 5)"
  let ?hi = "max 10 (rat_of_int (boss_hp (app_options app)))"
  let ?tg = "tune_target_median (app_options app)"
  show ?thesis
  proof (cases "simulate_with_hp 1 ?q app g")
    case (Inl e)
    with assms show ?thesis by (simp add: tune_bracket_def Let_def)
  next
    case (Inr x1)
    obtain ml tl a1 ga where x1: "x1 = ((ml, tl), a1, ga)" by (metis prod.collapse)
    have s1: "simulate_with_hp 1 ?q app g = Inr ((ml, tl), a1, ga)" using Inr x1 by simp
    have e1: "set_hp_trials a1 h t = set_hp_trials app h t"
      using simulate_with_hp_app [OF s1] by (simp add: set_hp_trials_twice)
    show ?thesis
    proof (cases "simulate_with_hp ?hi ?q a1 ga")
      case (Inl e)
      with assms s1 show ?thesis by (simp add: tune_bracket_def Let_def)
    next
      case (Inr x2)
      obtain mh th a2 gb where x2: "x2 = ((mh, th), a2, gb)" by (metis prod.collapse)
      have s2: "simulate_with_hp ?hi ?q a1 ga = Inr ((mh, th), a2, gb)" using Inr x2 by simp
      have e2: "set_hp_trials a2 h t = set_hp_trials app h t"
        using simulate_with_hp_app [OF s2] e1 by (simp add: set_hp_trials_twice)
      show ?thesis
      proof (cases "escalate 12 ?tg ?q ?hi mh a2 gb")
        case (Inl e)
        with assms s1 s2 show ?thesis by (simp add: tune_bracket_def Let_def)
      next
        case (Inr x3)
        obtain h3 m3 a3 gc where x3: "x3 = (h3, m3, a3, gc)" by (metis prod.collapse)
        have s3: "escalate 12 ?tg ?q ?hi mh a2 gb = Inr (h3, m3, a3, gc)" using Inr x3 by simp
        from escalate_app [OF s3] obtain h' t' where
          "set_hp_trials a3 h' t' = set_hp_trials a2 h' t'"
          by blast
        then have "set_hp_trials a3 h t = set_hp_trials a2 h t"
          by (rule set_hp_trials_cong)
        with e2 have e3: "set_hp_trials a3 h t = set_hp_trials app h t" by simp
        show ?thesis
        proof (cases "med_gt ml ?tg")
          case False
          with assms s1 s2 s3 have "app1 = a3"
            by (simp add: tune_bracket_def Let_def)
          with e3 show ?thesis by simp
        next
          case True
          show ?thesis
          proof (cases "simulate_with_hp 1 ?q a3 gc")
            case (Inl e)
            with assms s1 s2 s3 True show ?thesis by (simp add: tune_bracket_def Let_def)
          next
            case (Inr x4)
            obtain r4 a4 gd where x4: "x4 = (r4, a4, gd)" by (metis prod.collapse)
            have s4: "simulate_with_hp 1 ?q a3 gc = Inr (r4, a4, gd)" using Inr x4 by simp
            have "app1 = a4"
              using assms s1 s2 s3 s4 True
              by (cases r4) (simp add: tune_bracket_def Let_def)
            then show ?thesis
              using simulate_with_hp_app [OF s4] e3 by (simp add: set_hp_trials_twice)
          qed
        qed
      qed
    qed
  qed
qed

text \<open>
  C8. Whenever the bracket test fails after the bracket search (\<open>med_low \<le> target \<le>
  med_high\<close> does not hold), the tuner ends with the infeasibility warning and no tuned
  HP, and the application state it leaves is the one it started from: boss HP and trial
  count have their values from before the tuning.
\<close>

theorem infeasible_tuning_restores:
  assumes "tune_bracket app g = Inr (low, high, med_low, med_high, app1, g1)"
    and "\<not> (med_le med_low (tune_target_median (app_options app))
            \<and> med_ge med_high (tune_target_median (app_options app)))"
  shows "on_auto_tune app g = Inr (Infeasible, app, g1)
         \<and> (\<forall>r app2 g2. on_auto_tune app g = Inr (r, app2, g2) \<longrightarrow>
               r = Infeasible
               \<and> boss_hp (app_options app2) = boss_hp (app_options app)
               \<and> enc_trials (app_options app2) = enc_trials (app_options app))"
proof -
  have "set_hp_trials app1 (boss_hp (app_options app)) (enc_trials (app_options app)) = app"
    using tune_bracket_app [OF assms(1)] by (simp add: set_hp_trials_same)
  then have "on_auto_tune app g = Inr (Infeasible, app, g1)"
    using assms by (simp add: on_auto_tune_def Let_def)
  then show ?thesis by simp
qed

lemma escalate_done:
  assumes "\<not> med_lt med_high target"
  shows "escalate n target quick high med_high app g = Inr (high, med_high, app, g)"
  using assms by (cases n) simp_all

theorem infeasible_tuning_restores_witness:
  "tune_bracket (small_encounter\<lparr>party_table := []\<rparr>) (Rng (\<lambda>i. i) 0)
     = Inr (1, 10, None, None, set_hp_trials (small_encounter\<lparr>party_table := []\<rparr>) 1 3000,
            Rng (\<lambda>i. i) 0)
   \<and> \<not> (med_le None (tune_target_median (app_options (small_encounter\<lparr>party_table := []\<rparr>)))
          \<and> med_ge None (tune_target_median (app_options (small_encounter\<lparr>party_table := []\<rparr>))))
   \<and> on_auto_tune (small_encounter\<lparr>party_table := []\<rparr>) (Rng (\<lambda>i. i) 0)
       = Inr (Infeasible, small_encounter\<lparr>party_table := []\<rparr>, Rng (\<lambda>i. i) 0)"
proof -
  let ?app = "small_encounter\<lparr>party_table := []\<rparr>"
  let ?g = "Rng (\<lambda>i. i) 0"
  have r: "\<And>h t. run_encounter_mc (set_hp_trials ?app h t) ?g = Inr (None, ?g)"
    by (simp add: run_encounter_mc_def set_hp_trials_def Let_def)
  have s: "\<And>a hp t. simulate_with_hp hp t (set_hp_trials ?app a t) ?g
             = Inr ((None, Some 1), set_hp_trials ?app (max 1 (py_round hp)) t, ?g)"
    by (simp add: simulate_with_hp_def Let_def set_hp_trials_twice r)
  have s0: "\<And>hp t. simulate_with_hp hp t ?app ?g
             = Inr ((None, Some 1), set_hp_trials ?app (max 1 (py_round hp)) t, ?g)"
    by (simp add: simulate_with_hp_def Let_def r)
  have o: "boss_hp (app_options small_encounter) = 5"
    "enc_trials (app_options small_encounter) = 2"
    "tune_target_median (app_options small_encounter) = 4"
    by (simp_all add: small_encounter_def DEFAULT_OPTIONS_def)
  have p1: "py_round 1 = 1" and p10: "py_round 10 = 10"
    by (simp_all add: py_round_def)
  have b: "tune_bracket ?app ?g = Inr (1, 10, None, None, set_hp_trials ?app 1 3000, ?g)"
    by (simp add: tune_bracket_def Let_def o s0 s p1 p10 escalate_done med_lt_def med_gt_def)
  have n: "\<not> (med_le None (tune_target_median (app_options ?app))
          \<and> med_ge None (tune_target_median (app_options ?app)))"
    by (simp add: med_le_def)
  from infeasible_tuning_restores [OF b n]
  have "on_auto_tune ?app ?g = Inr (Infeasible, ?app, ?g)"
    by blast
  with b n show ?thesis by blast
qed

subsection \<open>The final run of the auto-tuner\<close>

lemma map_upt_const:
  assumes "\<And>i. i < n \<Longrightarrow> f i = c"
  shows "map f [0..<n] = replicate n c"
proof -
  have "map f [0..<n] = map (\<lambda>_. c) [0..<n]"
    using assms by (intro map_cong) simp_all
  then show ?thesis by (simp add: map_replicate_const)
qed

lemma count_true_replicate_True: "count_true (replicate n True) = n"
  by (simp add: count_true_def)

lemma count_true_replicate_False: "count_true (replicate n False) = 0"
  by (simp add: count_true_def)

lemma np_any_replicate: "np_any (replicate n b) = (b \<and> 0 < n)"
  by (auto simp: np_any_def)

lemma draw_list_gamma_steady:
  assumes "even p"
  shows "draw_list n (gamma_rng 200 cv) (Rng steady_src p)
         = (replicate n 200, Rng steady_src (p + 2 * n))"
  using assms
proof (induction n arbitrary: p)
  case 0
  then show ?case by simp
next
  case (Suc n)
  have g: "gamma_rng 200 cv (Rng steady_src p) = (200, Rng steady_src (Suc (Suc p)))"
    using Suc.prems by (simp add: gamma_rng_def nonneg_float_def steady_src_def)
  have "even (Suc (Suc p))" using Suc.prems by simp
  from Suc.IH [OF this] show ?case
    using g by simp
qed

text \<open>The party phase under a mask that holds everywhere, when one member deals 200
  to a boss of at most 200 HP in every trial.\<close>

lemma party_phase_kill:
  assumes cx: "c_trials cx = n" "c_P cx = 1" "c_eff_means cx = [200]"
              "c_resist cx = 1" "c_regen cx = 0"
    and st: "boss_hp_arr st = replicate n h" "pcs_alive st = replicate n [True]"
            "ttk st = replicate n None" "gen st = Rng steady_src p"
    and h: "h \<le> 200" and p: "even p" and n: "0 < n"
  shows "ttk (party_phase cx (replicate n True) rnd st) = replicate n (Some rnd)
       \<and> tpk_flags (party_phase cx (replicate n True) rnd st) = tpk_flags st
       \<and> gen (party_phase cx (replicate n True) rnd st) = Rng steady_src (p + 2 * n)"
proof -
  have am: "map (\<lambda>t. replicate n True ! t \<and> replicate n [True] ! t ! 0) [0..<n] = replicate n True"
    by (rule map_upt_const) simp
  have dm: "map (\<lambda>t. if replicate n True ! t
                     then replicate n (0::rat) ! t + replicate n 200 ! count_true (take t (replicate n True))
                     else replicate n 0 ! t) [0..<n] = replicate n 200"
    by (rule map_upt_const) (simp add: count_true_def min_def)
  have step: "party_member_step cx (replicate n True) (replicate n [True])
                (replicate n 0, Rng steady_src p) 0
              = (replicate n 200, Rng steady_src (p + 2 * n))"
    using n by (simp add: party_member_step_def Let_def cx am count_true_replicate_True
        draw_list_gamma_steady [OF p] dm)
  have fold: "foldl (party_member_step cx (replicate n True) (pcs_alive st))
                (replicate (c_trials cx) 0, gen st) [0..<c_P cx]
              = (replicate n 200, Rng steady_src (p + 2 * n))"
    by (simp add: cx st step)
  have d2: "map (\<lambda>t. max 0 (replicate n (200::rat) ! t / max (1 / 1000000) (c_resist cx)
                            - c_regen cx)) [0..<c_trials cx]
            = replicate n 200"
    unfolding cx by (rule map_upt_const) simp
  have bh: "map (\<lambda>t. if replicate n True ! t then boss_hp_arr st ! t - replicate n 200 ! t
                     else boss_hp_arr st ! t) [0..<c_trials cx] = replicate n (h - 200)"
    unfolding cx st by (rule map_upt_const) simp
  have nd: "map (\<lambda>t. replicate n (h - 200) ! t \<le> 0 \<and> replicate n True ! t
                      \<and> ttk st ! t = None) [0..<c_trials cx] = replicate n True"
    unfolding cx st using h by (intro map_upt_const) simp
  have tk: "map (\<lambda>t. if replicate n True ! t then Some rnd else ttk st ! t) [0..<c_trials cx]
            = replicate n (Some rnd)"
    unfolding cx st by (rule map_upt_const) simp
  show ?thesis
    by (simp only: party_phase_def Let_def fold prod.case d2 bh nd tk) simp
qed

lemma enc_rounds_done:
  assumes "\<not> np_any (ongoing_of cx st)"
  shows "enc_rounds cx rs st = Inr st"
  using assms by (cases rs) simp_all

lemma enc_round_kill:
  assumes cx: "c_trials cx = n" "c_P cx = 1" "c_eff_means cx = [200]"
              "c_resist cx = 1" "c_regen cx = 0"
    and im: "c_init_mode cx = ''party_first''"
    and st: "boss_hp_arr st = replicate n h" "pcs_alive st = replicate n [True]"
            "ttk st = replicate n None" "gen st = Rng steady_src p"
    and h: "h \<le> 200" and p: "even p" and n: "0 < n"
  shows "enc_rounds cx (rnd # rest) st = Inr (party_phase cx (replicate n True) rnd st)"
proof -
  let ?st1 = "party_phase cx (replicate n True) rnd st"
  have k: "ttk ?st1 = replicate n (Some rnd)"
    using party_phase_kill [OF cx st h p n] by simp
  have o0: "ongoing_of cx st = replicate n True"
    unfolding ongoing_of_def cx st by (rule map_upt_const) simp
  have o1: "ongoing_of cx ?st1 = replicate n False"
    unfolding ongoing_of_def cx k by (rule map_upt_const) simp
  have b: "boss_goes_first cx (c_trials cx) (gen st) = (replicate n False, gen st)"
    by (simp add: boss_goes_first_def im cx)
  have m1: "map (\<lambda>t. replicate n True ! t \<and> \<not> replicate n False ! t) [0..<c_trials cx]
            = replicate n True"
    unfolding cx by (rule map_upt_const) simp
  have m2: "map (\<lambda>t. replicate n False ! t \<and> replicate n False ! t) [0..<c_trials cx]
            = replicate n False"
    unfolding cx by (rule map_upt_const) simp
  have m3: "map ((!) (replicate n False)) [0..<c_trials cx] = replicate n False"
    unfolding cx by (rule map_upt_const) simp
  have g: "st\<lparr>gen := gen st\<rparr> = st" by simp
  have r: "enc_round cx rnd st = Inr ?st1"
    using n
    by (simp only: enc_round_def Let_def o0 b prod.case m1 np_any_replicate g o1 m2 m3
          simp_thms if_True if_False sum.case)
  have "np_any (ongoing_of cx st)"
    using n by (simp add: o0 np_any_replicate)
  moreover have "enc_rounds cx rest ?st1 = Inr ?st1"
    by (rule enc_rounds_done) (simp add: o1 np_any_replicate)
  ultimately show ?thesis
    using r by simp
qed

lemma tie_context:
  "c_trials (enc_context (set_hp_trials tie_encounter hp n)) = n"
  "c_P (enc_context (set_hp_trials tie_encounter hp n)) = 1"
  "c_eff_means (enc_context (set_hp_trials tie_encounter hp n)) = [200]"
  "c_resist (enc_context (set_hp_trials tie_encounter hp n)) = 1"
  "c_regen (enc_context (set_hp_trials tie_encounter hp n)) = 0"
  "c_init_mode (enc_context (set_hp_trials tie_encounter hp n)) = ''party_first''"
  by (simp_all add: enc_context_def set_hp_trials_def tie_encounter_def DEFAULT_OPTIONS_def
      default_party_def eff_party_dprs_def Let_def)

lemma tie_initial:
  "boss_hp_arr (enc_initial (set_hp_trials tie_encounter hp n) g) = replicate n (of_int hp)"
  "pcs_alive (enc_initial (set_hp_trials tie_encounter hp n) g) = replicate n [True]"
  "ttk (enc_initial (set_hp_trials tie_encounter hp n) g) = replicate n None"
  "tpk_flags (enc_initial (set_hp_trials tie_encounter hp n) g) = replicate n False"
  "gen (enc_initial (set_hp_trials tie_encounter hp n) g) = g"
  by (simp_all add: enc_initial_def set_hp_trials_def tie_encounter_def default_party_def Let_def)

lemma tie_run:
  assumes p: "even p" and n: "0 < n" and h: "hp \<le> 200"
  shows "\<exists>m. run_encounter_mc (set_hp_trials tie_encounter hp n) (Rng steady_src p)
               = Inr (Some m, Rng steady_src (p + 2 * n))
             \<and> m_ttk m = replicate n (Some 1) \<and> m_tpk_prob m = Some 0"
proof -
  let ?app = "set_hp_trials tie_encounter hp n"
  let ?cx = "enc_context ?app"
  let ?st0 = "enc_initial ?app (Rng steady_src p)"
  let ?st1 = "party_phase ?cx (replicate n True) 1 ?st0"
  have h': "rat_of_int hp \<le> 200" using h by simp
  have pre1: "party_table ?app \<noteq> []"
    by (simp add: set_hp_trials_def tie_encounter_def default_party_def)
  have pre2: "attacks_enabled_from_table (attacks_table ?app) \<noteq> []"
    by (simp add: set_hp_trials_def tie_encounter_def default_attacks_def
        attacks_enabled_from_table_def)
  have pre3: "eff_party_dprs ?app (enc_use_nova (app_options ?app)) \<noteq> []"
    by (simp add: set_hp_trials_def tie_encounter_def DEFAULT_OPTIONS_def eff_party_dprs_def)
  have mr: "[1..<Suc (enc_max_rounds (app_options ?app))] = 1 # [2..<13]"
    by (simp add: set_hp_trials_def tie_encounter_def DEFAULT_OPTIONS_def upt_conv_Cons)
  have rs: "enc_rounds ?cx (1 # [2..<13]) ?st0 = Inr ?st1"
    by (rule enc_round_kill [OF tie_context tie_initial(1,2,3,5) h' p n])
  have pk: "ttk ?st1 = replicate n (Some 1)
       \<and> tpk_flags ?st1 = tpk_flags ?st0
       \<and> gen ?st1 = Rng steady_src (p + 2 * n)"
    by (rule party_phase_kill [OF tie_context(1-5) tie_initial(1,2,3,5) h' p n])
  have k: "ttk ?st1 = replicate n (Some 1)" "tpk_flags ?st1 = replicate n False"
    "gen ?st1 = Rng steady_src (p + 2 * n)"
    using pk tie_initial(4) [of hp n "Rng steady_src p"] by (simp_all only:)
  have run: "run_encounter_mc ?app (Rng steady_src p)
      = Inr (Some (enc_metrics ?cx ?st1), Rng steady_src (p + 2 * n))"
    using pre1 pre2 pre3
    by (simp only: run_encounter_mc_def Let_def mr rs k sum.case if_False simp_thms)
  have "m_ttk (enc_metrics ?cx ?st1) = replicate n (Some 1)"
    by (simp add: enc_metrics_def Let_def k del: upt_Suc One_nat_def)
  moreover have "m_tpk_prob (enc_metrics ?cx ?st1) = Some 0"
    using n by (simp add: enc_metrics_def Let_def k np_mean_def count_true_replicate_False
        del: upt_Suc One_nat_def)
  ultimately show ?thesis using run by blast
qed

lemma finite_ttk_replicate: "finite_ttk (replicate n (Some r)) = replicate n (of_nat r)"
  by (induction n) (simp_all add: finite_ttk_def)

lemma np_median_replicate:
  assumes "0 < n"
  shows "np_median (replicate n x) = x"
proof -
  have "n div 2 < n" using assms by simp
  moreover have "n div 2 - 1 < n" using assms by simp
  ultimately show ?thesis
    by (simp add: np_median_def Let_def sort_replicate)
qed

lemma median_of_replicate:
  assumes "m_ttk m = replicate n (Some r)" and "0 < n"
  shows "median_of m = Some (of_nat r)"
  using assms by (simp add: median_of_def Let_def finite_ttk_replicate np_median_replicate)

lemma py_round_near: "\<bar>of_int (py_round x) - x\<bar> \<le> 1 / 2"
proof -
  have "of_int \<lfloor>x\<rfloor> \<le> x" and "x < of_int \<lfloor>x\<rfloor> + 1"
    by linarith+
  then show ?thesis
    by (auto simp: py_round_def Let_def abs_le_iff)
qed

lemma tune_bisect_app:
  assumes "tune_bisect n target quick low high app g = Inr (low2, high2, app2, g2)"
  shows "\<exists>h t. set_hp_trials app2 h t = set_hp_trials app h t"
  using assms
proof (induction n arbitrary: low high app g)
  case 0
  then show ?case by simp
next
  case (Suc n)
  show ?case
  proof (cases "simulate_with_hp ((low + high) / 2) quick app g")
    case (Inl e)
    with Suc.prems show ?thesis by (simp add: Let_def)
  next
    case (Inr x)
    obtain mm tp app1 g1 where x: "x = ((mm, tp), app1, g1)" by (metis prod.collapse)
    have s: "simulate_with_hp ((low + high) / 2) quick app g = Inr ((mm, tp), app1, g1)"
      using Inr x by simp
    have a1: "app1 = set_hp_trials app (max 1 (py_round ((low + high) / 2))) quick"
      by (rule simulate_with_hp_app [OF s])
    show ?thesis
    proof (cases "med_close mm target")
      case True
      with Suc.prems s have "app2 = app1" by (simp add: Let_def)
      with a1 show ?thesis by (auto simp: set_hp_trials_twice)
    next
      case False
      with Suc.prems s have
        "tune_bisect n target quick (if med_ge mm target then low else (low + high) / 2)
           (if med_ge mm target then (low + high) / 2 else high) app1 g1
         = Inr (low2, high2, app2, g2)"
        by (simp add: Let_def)
      from Suc.IH [OF this] obtain h t where "set_hp_trials app2 h t = set_hp_trials app1 h t"
        by blast
      with a1 show ?thesis by (auto simp: set_hp_trials_twice)
    qed
  qed
qed

text \<open>
  C7, as amended. When the bracket test passes and the bisection ends with the bounds
  \<open>low2\<close> and \<open>high2\<close>, the final simulation runs with the original trial count at
  the boss HP \<open>py_round high2\<close>, the integer nearest to the final high bound with a tie
  going to the even neighbour; the reported median and wipe probability are those of
  this run, and the tuned HP is within one half of \<open>high2\<close>.
\<close>

theorem tuner_final_run:
  assumes "tune_bracket app g = Inr (low, high, med_low, med_high, app1, g1)"
    and "med_le med_low (tune_target_median (app_options app))
         \<and> med_ge med_high (tune_target_median (app_options app))"
    and "tune_bisect 16 (tune_target_median (app_options app))
           (max 3000 (enc_trials (app_options app) * 2 div 5)) low high app1 g1
         = Inr (low2, high2, app2, g2)"
    and "run_encounter_mc (set_hp_trials app (py_round high2) (enc_trials (app_options app))) g2
         = Inr (Some m, g3)"
  shows "on_auto_tune app g
         = Inr (Tuned (py_round high2) (median_of m) (m_tpk_prob m)
                  (case m_tpk_prob m of None \<Rightarrow> False
                   | Some tpk \<Rightarrow> tpk > tune_tpk_cap (app_options app) + 1 / 1000000000),
                set_hp_trials app (py_round high2) (enc_trials (app_options app)), g3)
         \<and> \<bar>of_int (py_round high2) - high2\<bar> \<le> 1 / 2"
proof -
  from tune_bisect_app [OF assms(3)] obtain h t where
    "set_hp_trials app2 h t = set_hp_trials app1 h t"
    by blast
  then have "set_hp_trials app2 (py_round high2) (enc_trials (app_options app))
             = set_hp_trials app1 (py_round high2) (enc_trials (app_options app))"
    by (rule set_hp_trials_cong)
  also have "\<dots> = set_hp_trials app (py_round high2) (enc_trials (app_options app))"
    by (rule tune_bracket_app [OF assms(1)])
  finally have a: "set_hp_trials app2 (py_round high2) (enc_trials (app_options app))
             = set_hp_trials app (py_round high2) (enc_trials (app_options app))" .
  have "tune_final (boss_hp (app_options app)) (enc_trials (app_options app))
          (tune_tpk_cap (app_options app)) high2 app2 g2
        = Inr (Tuned (py_round high2) (median_of m) (m_tpk_prob m)
                  (case m_tpk_prob m of None \<Rightarrow> False
                   | Some tpk \<Rightarrow> tpk > tune_tpk_cap (app_options app) + 1 / 1000000000),
                set_hp_trials app (py_round high2) (enc_trials (app_options app)), g3)"
    by (simp add: tune_final_def Let_def a assms(4))
  then have "on_auto_tune app g
         = Inr (Tuned (py_round high2) (median_of m) (m_tpk_prob m)
                  (case m_tpk_prob m of None \<Rightarrow> False
                   | Some tpk \<Rightarrow> tpk > tune_tpk_cap (app_options app) + 1 / 1000000000),
                set_hp_trials app (py_round high2) (enc_trials (app_options app)), g3)"
    using assms(1,2,3) by (simp add: on_auto_tune_def Let_def)
  then show ?thesis
    using py_round_near [of high2] by simp
qed

text \<open>The tuner's simulation calls on \<open>tie_encounter\<close> with the draws of \<open>steady_src\<close>.\<close>

lemma tie_simulate:
  assumes "even p" and "0 < n" and "max 1 (py_round x) \<le> 200"
  shows "simulate_with_hp x n (set_hp_trials tie_encounter a b) (Rng steady_src p)
         = Inr ((Some 1, Some 0), set_hp_trials tie_encounter (max 1 (py_round x)) n,
                Rng steady_src (p + 2 * n))"
proof -
  from tie_run [OF assms] obtain m where
    r: "run_encounter_mc (set_hp_trials tie_encounter (max 1 (py_round x)) n) (Rng steady_src p)
        = Inr (Some m, Rng steady_src (p + 2 * n))"
    and t: "m_ttk m = replicate n (Some 1)" and k: "m_tpk_prob m = Some 0"
    by blast
  have "median_of m = Some 1"
    using median_of_replicate [OF t assms(2)] by simp
  then show ?thesis
    by (simp add: simulate_with_hp_def Let_def set_hp_trials_twice r k)
qed

lemma tune_bisect_first:
  assumes "0 < n"
    and "simulate_with_hp ((low + high) / 2) quick app g = Inr ((mm, tp), app1, g1)"
    and "med_close mm target"
  shows "tune_bisect n target quick low high app g
         = Inr (if med_ge mm target then low else (low + high) / 2,
                if med_ge mm target then (low + high) / 2 else high, app1, g1)"
  using assms by (cases n) (simp_all add: Let_def)

lemma py_round_tie: "py_round (149 / 2) = 74"
  by code_simp

lemma tie_options:
  "boss_hp (app_options tie_encounter) = 148"
  "enc_trials (app_options tie_encounter) = 10000"
  "tune_target_median (app_options tie_encounter) = 1"
  "tune_tpk_cap (app_options tie_encounter) = 1 / 20"
  by (simp_all add: tie_encounter_def DEFAULT_OPTIONS_def)

lemma tie_trace:
  "tune_bracket tie_encounter (Rng steady_src 0)
     = Inr (1, 148, Some 1, Some 1, set_hp_trials tie_encounter 148 4000, Rng steady_src 16000)"
  "tune_bisect 16 1 4000 1 148 (set_hp_trials tie_encounter 148 4000) (Rng steady_src 16000)
     = Inr (1, 149 / 2, set_hp_trials tie_encounter 74 4000, Rng steady_src 24000)"
  "\<exists>m. run_encounter_mc (set_hp_trials tie_encounter 74 10000) (Rng steady_src 24000)
          = Inr (Some m, Rng steady_src 44000)
        \<and> median_of m = Some 1 \<and> m_tpk_prob m = Some 0"
proof -
  have e: "set_hp_trials tie_encounter 148 10000 = tie_encounter"
    using set_hp_trials_same [of tie_encounter] by (simp add: tie_options)
  have r1: "py_round 1 = 1" and r148: "py_round 148 = 148"
    by (simp_all add: py_round_def)
  note r74 = py_round_tie
  have s1: "simulate_with_hp 1 4000 tie_encounter (Rng steady_src 0)
            = Inr ((Some 1, Some 0), set_hp_trials tie_encounter 1 4000, Rng steady_src 8000)"
    using tie_simulate [of 0 4000 1 148 10000] by (simp add: e r1)
  have s2: "simulate_with_hp 148 4000 (set_hp_trials tie_encounter 1 4000) (Rng steady_src 8000)
            = Inr ((Some 1, Some 0), set_hp_trials tie_encounter 148 4000, Rng steady_src 16000)"
    using tie_simulate [of 8000 4000 148 1 4000] by (simp add: r148)
  have es: "escalate 12 1 4000 148 (Some 1) (set_hp_trials tie_encounter 148 4000)
              (Rng steady_src 16000)
            = Inr (148, Some 1, set_hp_trials tie_encounter 148 4000, Rng steady_src 16000)"
    by (rule escalate_done) (simp add: med_lt_def)
  show "tune_bracket tie_encounter (Rng steady_src 0)
     = Inr (1, 148, Some 1, Some 1, set_hp_trials tie_encounter 148 4000, Rng steady_src 16000)"
    by (simp add: tune_bracket_def Let_def tie_options s1 s2 es med_gt_def)
  have s3: "simulate_with_hp (149 / 2) 4000 (set_hp_trials tie_encounter 148 4000)
              (Rng steady_src 16000)
            = Inr ((Some 1, Some 0), set_hp_trials tie_encounter 74 4000, Rng steady_src 24000)"
    using tie_simulate [of 16000 4000 "149 / 2" 148 4000] by (simp add: r74)
  have s3': "simulate_with_hp ((1 + 148) / 2) 4000 (set_hp_trials tie_encounter 148 4000)
              (Rng steady_src 16000)
            = Inr ((Some 1, Some 0), set_hp_trials tie_encounter 74 4000, Rng steady_src 24000)"
    using s3 by simp
  have "med_close (Some 1) 1" by (simp add: med_close_def)
  with tune_bisect_first [OF _ s3', of 16 1]
  show "tune_bisect 16 1 4000 1 148 (set_hp_trials tie_encounter 148 4000)
          (Rng steady_src 16000)
        = Inr (1, 149 / 2, set_hp_trials tie_encounter 74 4000, Rng steady_src 24000)"
    by (simp add: med_ge_def)
  from tie_run [of 24000 10000 74] obtain m where
    r: "run_encounter_mc (set_hp_trials tie_encounter 74 10000) (Rng steady_src 24000)
        = Inr (Some m, Rng steady_src 44000)"
    and t: "m_ttk m = replicate 10000 (Some 1)" and k: "m_tpk_prob m = Some 0"
    by auto
  have "median_of m = Some 1"
    using median_of_replicate [OF t] by simp
  with r k show "\<exists>m. run_encounter_mc (set_hp_trials tie_encounter 74 10000) (Rng steady_src 24000)
          = Inr (Some m, Rng steady_src 44000)
        \<and> median_of m = Some 1 \<and> m_tpk_prob m = Some 0"
    by blast
qed

text \<open>
  C7 as stated fails on \<open>tie_encounter\<close> (boss HP 148, target median 1 round, 10000
  trials): every simulation ends in round one, so the bracket is \<open>[1, 148]\<close>, the
  first bisection step ends the search with the final high bound 74.5, and the final
  simulation runs at \<^verbatim>\<open>int(round(74.5))\<close> = 74, while the ceiling of 74.5 is 75.
\<close>

theorem tuner_rounds_half_to_even:
  "tune_bracket tie_encounter (Rng steady_src 0)
     = Inr (1, 148, Some 1, Some 1, set_hp_trials tie_encounter 148 4000, Rng steady_src 16000)
   \<and> tune_bisect 16 1 4000 1 148 (set_hp_trials tie_encounter 148 4000) (Rng steady_src 16000)
     = Inr (1, 149 / 2, set_hp_trials tie_encounter 74 4000, Rng steady_src 24000)
   \<and> \<lceil>149 / 2 :: rat\<rceil> = 75
   \<and> on_auto_tune tie_encounter (Rng steady_src 0)
     = Inr (Tuned 74 (Some 1) (Some 0) False, set_hp_trials tie_encounter 74 10000,
            Rng steady_src 44000)
   \<and> boss_hp (app_options (set_hp_trials tie_encounter 74 10000)) = 74
   \<and> (74 :: int) \<noteq> \<lceil>149 / 2 :: rat\<rceil>"
proof -
  from tie_trace(3) obtain m where
    r: "run_encounter_mc (set_hp_trials tie_encounter 74 10000) (Rng steady_src 24000)
        = Inr (Some m, Rng steady_src 44000)"
    and md: "median_of m = Some 1" and k: "m_tpk_prob m = Some 0"
    by blast
  note r74 = py_round_tie
  have f: "tune_final 148 10000 (1 / 20) (149 / 2) (set_hp_trials tie_encounter 74 4000)
             (Rng steady_src 24000)
           = Inr (Tuned 74 (Some 1) (Some 0) False, set_hp_trials tie_encounter 74 10000,
                  Rng steady_src 44000)"
    by (simp add: tune_final_def Let_def r74 set_hp_trials_twice r md k)
  have o: "on_auto_tune tie_encounter (Rng steady_src 0)
     = Inr (Tuned 74 (Some 1) (Some 0) False, set_hp_trials tie_encounter 74 10000,
            Rng steady_src 44000)"
    by (simp add: on_auto_tune_def Let_def tie_options tie_trace(1,2) med_le_def med_ge_def f)
  have c: "\<lceil>149 / 2 :: rat\<rceil> = 75"
    by (simp add: ceiling_eq_iff)
  have b: "boss_hp (app_options (set_hp_trials tie_encounter 74 10000)) = 74"
    by (simp add: set_hp_trials_def)
  show ?thesis
    using tie_trace(1,2) o c b by simp
qed

theorem tuner_final_run_witness:
  "med_le (Some 1) (tune_target_median (app_options tie_encounter))
   \<and> med_ge (Some 1) (tune_target_median (app_options tie_encounter))
   \<and> py_round (149 / 2) = 74
   \<and> on_auto_tune tie_encounter (Rng steady_src 0)
     = Inr (Tuned 74 (Some 1) (Some 0) False, set_hp_trials tie_encounter 74 10000,
            Rng steady_src 44000)
   \<and> \<bar>of_int (py_round (149 / 2)) - (149 / 2 :: rat)\<bar> \<le> 1 / 2"
proof -
  note r74 = py_round_tie
  from tie_trace(3) obtain m where
    r: "run_encounter_mc (set_hp_trials tie_encounter 74 10000) (Rng steady_src 24000)
        = Inr (Some m, Rng steady_src 44000)"
    and md: "median_of m = Some 1" and k: "m_tpk_prob m = Some 0"
    by blast
  have h2: "med_le (Some 1) (tune_target_median (app_options tie_encounter))
            \<and> med_ge (Some 1) (tune_target_median (app_options tie_encounter))"
    by (simp add: tie_options med_le_def med_ge_def)
  have h3: "tune_bisect 16 (tune_target_median (app_options tie_encounter))
           (max 3000 (enc_trials (app_options tie_encounter) * 2 div 5)) 1 148
           (set_hp_trials tie_encounter 148 4000) (Rng steady_src 16000)
         = Inr (1, 149 / 2, set_hp_trials tie_encounter 74 4000, Rng steady_src 24000)"
    using tie_trace(2) by (simp add: tie_options)
  have h4: "run_encounter_mc (set_hp_trials tie_encounter (py_round (149 / 2))
              (enc_trials (app_options tie_encounter))) (Rng steady_src 24000)
            = Inr (Some m, Rng steady_src 44000)"
    using r by (simp add: r74 tie_options)
  from tuner_final_run [OF tie_trace(1) h2 h3 h4]
  have "on_auto_tune tie_encounter (Rng steady_src 0)
     = Inr (Tuned 74 (Some 1) (Some 0) False, set_hp_trials tie_encounter 74 10000,
            Rng steady_src 44000)
     \<and> \<bar>of_int (py_round (149 / 2)) - (149 / 2 :: rat)\<bar> \<le> 1 / 2"
    by (simp add: r74 md k tie_options)
  with h2 r74 show ?thesis by simp
qed

end
